theory Spec2Isabelle
  imports Main "HOL-Library.Sublist"
begin

section \<open>The Version value (perl_version.go)\<close>

text \<open>
  The Go struct \<^verbatim>\<open>Version\<close> has four unexported fields. The components are
  \<^verbatim>\<open>int64\<close> values; the package never does arithmetic on them (they are
  produced by a range-checked \<^verbatim>\<open>strconv.Atoi\<close> and only compared and copied),
  so they are modelled as \<open>int\<close>. Go strings are byte strings: \<open>string\<close>.
  A nil slice and an empty slice are both the empty list.
\<close>

record Version =
  original :: string
  alpha :: bool
  qv :: bool
  version :: "int list"

definition IsAlpha :: "Version \<Rightarrow> bool" where
  "IsAlpha v = alpha v"

definition IsQv :: "Version \<Rightarrow> bool" where
  "IsQv v = qv v"

definition Stringify :: "Version \<Rightarrow> string" where
  "Stringify v = (if original v = ''undef'' then ''0'' else original v)"


definition Undef :: Version where
  "Undef = \<lparr>original = ''undef'', alpha = False, qv = False, version = [0]\<rparr>"

subsection \<open>Comparisons\<close>

text \<open>
  \<^verbatim>\<open>LessThan\<close> and \<^verbatim>\<open>GreaterThan\<close> run the same loop
  \<^verbatim>\<open>for i := 0; i < length; i++\<close> with \<^verbatim>\<open>length = min(len(v), len(other))\<close>;
  the loop is the recursion below, the index \<open>i\<close> running up to \<open>n\<close>.
  Every read \<open>a ! i\<close> happens under the guard \<open>i < n\<close>.
\<close>

definition min_int :: "nat \<Rightarrow> nat \<Rightarrow> nat" where
  "min_int a b = (if a < b then a else b)"

function LessThan_loop :: "nat \<Rightarrow> nat \<Rightarrow> int list \<Rightarrow> int list \<Rightarrow> bool" where
  "LessThan_loop i n a b =
     (if i < n then
        (if a ! i < b ! i then True
         else if a ! i > b ! i then False
         else LessThan_loop (Suc i) n a b)
      else False)"
  by pat_completeness auto
termination
  by (relation "measure (\<lambda>(i, n, a, b). n - i)") auto

function GreaterThan_loop :: "nat \<Rightarrow> nat \<Rightarrow> int list \<Rightarrow> int list \<Rightarrow> bool" where
  "GreaterThan_loop i n a b =
     (if i < n then
        (if a ! i > b ! i then True
         else if a ! i < b ! i then False
         else GreaterThan_loop (Suc i) n a b)
      else False)"
  by pat_completeness auto
termination
  by (relation "measure (\<lambda>(i, n, a, b). n - i)") auto

definition LessThan :: "Version \<Rightarrow> Version \<Rightarrow> bool" where
  "LessThan v other =
     LessThan_loop 0 (min_int (length (version v)) (length (version other)))
       (version v) (version other)"

definition GreaterThan :: "Version \<Rightarrow> Version \<Rightarrow> bool" where
  "GreaterThan v other =
     GreaterThan_loop 0 (min_int (length (version v)) (length (version other)))
       (version v) (version other)"

definition Equal :: "Version \<Rightarrow> Version \<Rightarrow> bool" where
  "Equal v other = (\<not> (LessThan v other \<or> GreaterThan v other))"

definition LessThanOrEqual :: "Version \<Rightarrow> Version \<Rightarrow> bool" where
  "LessThanOrEqual v other = (Equal v other \<or> LessThan v other)"

definition GreaterThanOrEqual :: "Version \<Rightarrow> Version \<Rightarrow> bool" where
  "GreaterThanOrEqual v other = (Equal v other \<or> GreaterThan v other)"

definition NotEqual :: "Version \<Rightarrow> Version \<Rightarrow> bool" where
  "NotEqual v other = (\<not> Equal v other)"

definition Compare :: "Version \<Rightarrow> Version \<Rightarrow> int" where
  "Compare v other =
     (if LessThan v other then - 1
      else if GreaterThan v other then 1
      else 0)"

section \<open>Regular expressions (package regexp, as used by this package)\<close>

text \<open>
  The two grammars are Go regular expressions, compiled with \<^verbatim>\<open>regexp.MustCompile\<close>
  and switched to leftmost-longest matching by \<^verbatim>\<open>Longest()\<close> in \<^verbatim>\<open>init\<close>.
  The syntax tree below has the operators that patterns.go uses. A capturing group
  carries no number: as in Go, a group's index is one plus the number of groups that
  open to its left in the whole pattern, which the matcher computes from \<open>ngroups\<close>.
  A non-capturing group \<^verbatim>\<open>(?:r)\<close> is plain bracketing and needs no constructor.
\<close>

datatype regex =
    Eps
  | Chr char
  | Cls "char list"
  | Cat regex regex
  | Alt regex regex
  | Opt regex
  | Star regex
  | Grp regex
  | EndText

fun ngroups :: "regex \<Rightarrow> nat" where
  "ngroups (Cat a b) = ngroups a + ngroups b"
| "ngroups (Alt a b) = ngroups a + ngroups b"
| "ngroups (Opt a) = ngroups a"
| "ngroups (Star a) = ngroups a"
| "ngroups (Grp a) = Suc (ngroups a)"
| "ngroups _ = 0"

text \<open>
  \<open>rmatch n r s caps\<close> lists, in the priority order of a backtracking search (left
  alternative first, greedy repetition first), every way \<open>r\<close> can match a prefix of
  \<open>s\<close>: the unread rest of \<open>s\<close> and the captures after the match. \<open>n\<close> is the index
  of the first group inside \<open>r\<close>. A capture holds the text its group matched last, and
  the empty string while the group has not taken part, as
  \<^verbatim>\<open>FindStringSubmatch\<close> reports it. \<^verbatim>\<open>$\<close> (no flags) holds at the end of the
  text only. An iteration of \<open>Star\<close> continues only after reading at least one
  character; every starred expression of patterns.go reads one.
\<close>

function (sequential) rmatch ::
  "nat \<Rightarrow> regex \<Rightarrow> string \<Rightarrow> string list \<Rightarrow> (string \<times> string list) list" where
  "rmatch n Eps s caps = [(s, caps)]"
| "rmatch n (Chr c) s caps =
     (case s of [] \<Rightarrow> [] | x # xs \<Rightarrow> if x = c then [(xs, caps)] else [])"
| "rmatch n (Cls cs) s caps =
     (case s of [] \<Rightarrow> [] | x # xs \<Rightarrow> if x \<in> set cs then [(xs, caps)] else [])"
| "rmatch n (Cat a b) s caps =
     concat (map (\<lambda>st. rmatch (n + ngroups a) b (fst st) (snd st)) (rmatch n a s caps))"
| "rmatch n (Alt a b) s caps = rmatch n a s caps @ rmatch (n + ngroups a) b s caps"
| "rmatch n (Opt a) s caps = rmatch n a s caps @ [(s, caps)]"
| "rmatch n (Star a) s caps =
     concat (map (\<lambda>st. if length (fst st) < length s
                        then rmatch n (Star a) (fst st) (snd st) else [])
                 (rmatch n a s caps)) @ [(s, caps)]"
| "rmatch n (Grp a) s caps =
     map (\<lambda>st. (fst st, (snd st)[n := take (length s - length (fst st)) s]))
         (rmatch (Suc n) a s caps)"
| "rmatch n EndText s caps = (if s = [] then [(s, caps)] else [])"
  by pat_completeness auto
termination
  by (relation "measures [\<lambda>(n, r, s, caps). size r, \<lambda>(n, r, s, caps). length s]") auto

text \<open>
  Leftmost-longest: among the matches that start at one position the longest wins, and
  among equally long ones the first in priority order.
\<close>

fun pick_longest :: "(string \<times> string list) list \<Rightarrow> (string \<times> string list) option" where
  "pick_longest [] = None"
| "pick_longest (r # rs) =
     (case pick_longest rs of
        None \<Rightarrow> Some r
      | Some b \<Rightarrow> if length (fst b) < length (fst r) then Some b else Some r)"

definition match_at :: "regex \<Rightarrow> string \<Rightarrow> nat \<Rightarrow> string list option" where
  "match_at re s i =
     (let t = drop i s in
      case pick_longest (rmatch 1 re t (replicate (Suc (ngroups re)) [])) of
        None \<Rightarrow> None
      | Some (rest, caps) \<Rightarrow> Some (caps[0 := take (length t - length rest) t]))"

fun leftmost :: "(nat \<Rightarrow> 'a option) \<Rightarrow> nat list \<Rightarrow> 'a option" where
  "leftmost f [] = None"
| "leftmost f (i # is) = (case f i of Some m \<Rightarrow> Some m | None \<Rightarrow> leftmost f is)"

text \<open>
  \<^verbatim>\<open>FindStringSubmatch\<close>: the match that starts earliest in the text (the search is
  not anchored at the start), as the list of the whole match and the captures;
  \<open>None\<close> is Go's nil.
\<close>

definition FindStringSubmatch :: "regex \<Rightarrow> string \<Rightarrow> string list option" where
  "FindStringSubmatch re s = leftmost (match_at re s) [0..<Suc (length s)]"

subsection \<open>The patterns (patterns.go)\<close>

text \<open>
  Bounded and one-or-more repetition are written with the identities by which Go's
  \<^verbatim>\<open>syntax.Simplify\<close> compiles them: \<^verbatim>\<open>x+\<close> is \<^verbatim>\<open>xx*\<close>, \<^verbatim>\<open>x{2,}\<close> is \<^verbatim>\<open>xx+\<close>
  and \<^verbatim>\<open>x{1,3}\<close> is \<^verbatim>\<open>x(?:x(?:x)?)?\<close>. They are applied to group-free
  expressions only.
\<close>

definition OneOrMore :: "regex \<Rightarrow> regex" where
  "OneOrMore r = Cat r (Star r)"

definition TwoOrMore :: "regex \<Rightarrow> regex" where
  "TwoOrMore r = Cat r (OneOrMore r)"

definition OneToThree :: "regex \<Rightarrow> regex" where
  "OneToThree r = Cat r (Opt (Cat r (Opt r)))"

fun lit :: "string \<Rightarrow> regex" where
  "lit [] = Eps"
| "lit [c] = Chr c"
| "lit (c # cs) = Cat (Chr c) (lit cs)"

definition digit :: regex where
  "digit = Cls ''0123456789''"

definition fractionR :: regex where
  "fractionR = Grp (Cat (Chr CHR ''.'') (OneOrMore digit))"

definition strictIntR :: regex where
  "strictIntR = Grp (Alt (Chr CHR ''0'') (Cat (Cls ''123456789'') (Star digit)))"

definition strictDottedNcR :: regex where
  "strictDottedNcR = Cat (Chr CHR ''.'') (OneToThree digit)"

definition strictDotted2PR :: regex where
  "strictDotted2PR = Grp (TwoOrMore strictDottedNcR)"

definition strictDecimalFormR :: regex where
  "strictDecimalFormR = Grp (Cat strictIntR (Opt fractionR))"

definition strictDottedFormR :: regex where
  "strictDottedFormR = Grp (Cat (Chr CHR ''v'') (Cat strictIntR strictDotted2PR))"

definition laxIntR :: regex where
  "laxIntR = Grp (OneOrMore digit)"

definition laxDottedNcR :: regex where
  "laxDottedNcR = Cat (Chr CHR ''.'') (OneOrMore digit)"

definition laxDotted2PR :: regex where
  "laxDotted2PR = Grp (TwoOrMore laxDottedNcR)"

definition laxDottedPR :: regex where
  "laxDottedPR = Grp (OneOrMore laxDottedNcR)"

definition laxAlphaR :: regex where
  "laxAlphaR = Grp (Cat (Chr CHR ''_'') (OneOrMore digit))"

definition laxUndefR :: regex where
  "laxUndefR = Grp (lit ''undef'')"

definition laxDecimalFormR :: regex where
  "laxDecimalFormR =
     Grp (Alt (Cat laxIntR (Cat (Opt (Alt fractionR (Chr CHR ''.''))) (Opt laxAlphaR)))
              (Cat fractionR (Opt laxAlphaR)))"

definition laxDottedFormR :: regex where
  "laxDottedFormR =
     Grp (Alt (Cat (Chr CHR ''v'') (Cat laxIntR (Opt (Cat laxDottedPR (Opt laxAlphaR)))))
              (Cat (Opt laxIntR) (Cat laxDotted2PR (Opt laxAlphaR))))"

definition LaxVersionRegex :: regex where
  "LaxVersionRegex = Cat (Alt laxUndefR (Alt laxDottedFormR laxDecimalFormR)) EndText"

definition StrictVersionRegex :: regex where
  "StrictVersionRegex = Cat (Alt strictDecimalFormR strictDottedFormR) EndText"

definition laxRegexp :: regex where
  "laxRegexp = LaxVersionRegex"

definition strictRegexp :: regex where
  "strictRegexp = StrictVersionRegex"

section \<open>Errors and panics\<close>

text \<open>
  A Go function of this package either returns, returns an \<^verbatim>\<open>error\<close> value, or
  panics. The error values are \<^verbatim>\<open>errAlphaWithoutDecimal\<close> (util.go), the
  \<^verbatim>\<open>errors.New("invalid version string: " + version)\<close> of \<^verbatim>\<open>Parse\<close>, and the
  type error that \<^verbatim>\<open>json.Unmarshal\<close> hands to \<^verbatim>\<open>UnmarshalJSON\<close>. A panic
  unwinds through every caller, none of which recovers; an error is an ordinary result
  that the caller inspects.
\<close>

datatype go_error =
    ErrAlphaWithoutDecimal
  | ErrInvalidVersionString string
  | ErrUnmarshalType

datatype panic = AtoiFailed string | IndexOutOfRange | Unreachable | LogicError

datatype fault = Error go_error | Panic panic

section \<open>Helpers (util.go)\<close>

text \<open>
  \<^verbatim>\<open>strconv.Atoi\<close> (64-bit \<^verbatim>\<open>int\<close>): an optional sign, then one or more decimal
  digits, the value within the signed 64-bit range; anything else is an error.
\<close>

definition is_digit :: "char \<Rightarrow> bool" where
  "is_digit c = (c \<in> set ''0123456789'')"

definition digit_value :: "char \<Rightarrow> int" where
  "digit_value c =
     (case map_of (zip ''0123456789'' [0, 1, 2, 3, 4, 5, 6, 7, 8, 9]) c of
        Some v \<Rightarrow> v
      | None \<Rightarrow> 0)"

definition dec_value :: "string \<Rightarrow> int" where
  "dec_value ds = foldl (\<lambda>acc c. 10 * acc + digit_value c) 0 ds"

definition Atoi :: "string \<Rightarrow> int option" where
  "Atoi s =
     (let neg = (s \<noteq> [] \<and> hd s = CHR ''-'');
          body = (if s \<noteq> [] \<and> (hd s = CHR ''+'' \<or> hd s = CHR ''-'') then tl s else s)
      in if body = [] \<or> \<not> list_all is_digit body then None
         else if neg then
           (if dec_value body \<le> 2 ^ 63 then Some (- dec_value body) else None)
         else
           (if dec_value body < 2 ^ 63 then Some (dec_value body) else None))"

definition mustParseInt64 :: "string \<Rightarrow> fault + int" where
  "mustParseInt64 s =
     (case Atoi s of None \<Rightarrow> Inl (Panic (AtoiFailed s)) | Some val \<Rightarrow> Inr val)"

text \<open>
  The loops \<^verbatim>\<open>for i, s := range raw { out[i] = mustParseInt64(s) }\<close>: the
  elements are parsed in order and the first failure panics.
\<close>

fun parse_each :: "string list \<Rightarrow> fault + int list" where
  "parse_each [] = Inr []"
| "parse_each (s # ss) =
     (case mustParseInt64 s of
        Inl e \<Rightarrow> Inl e
      | Inr v \<Rightarrow> (case parse_each ss of Inl e \<Rightarrow> Inl e | Inr vs \<Rightarrow> Inr (v # vs)))"

definition TrimPrefix :: "string \<Rightarrow> string \<Rightarrow> string" where
  "TrimPrefix s p = (if take (length p) s = p then drop (length p) s else s)"

text \<open>\<^verbatim>\<open>strings.Split(s, sep)\<close> for a one-character separator: always at least one piece.\<close>

fun Split :: "string \<Rightarrow> char \<Rightarrow> string list" where
  "Split [] sep = [[]]"
| "Split (x # xs) sep =
     (if x = sep then [] # Split xs sep
      else (case Split xs sep of [] \<Rightarrow> [[x]] | p # ps \<Rightarrow> (x # p) # ps))"

definition dottedToMinors :: "string \<Rightarrow> fault + int list" where
  "dottedToMinors s = parse_each (Split (TrimPrefix s ''.'') CHR ''.'')"

text \<open>
  The built-in \<^verbatim>\<open>copy(dst, src)\<close> writes \<open>min (len dst) (len src)\<close> elements and
  leaves the rest of \<open>dst\<close>; \<open>copy_tail values src\<close> is \<^verbatim>\<open>copy(values[1:], src)\<close>
  seen from \<open>values\<close>, the slice expression panicking on an empty \<open>values\<close>.
\<close>

definition go_copy :: "'a list \<Rightarrow> 'a list \<Rightarrow> 'a list" where
  "go_copy dst src = take (length dst) src @ drop (length src) dst"

definition copy_tail :: "'a list \<Rightarrow> 'a list \<Rightarrow> fault + 'a list" where
  "copy_tail values src =
     (case values of [] \<Rightarrow> Inl (Panic IndexOutOfRange) | x # rest \<Rightarrow> Inr (x # go_copy rest src))"

text \<open>
  The first loop of \<^verbatim>\<open>getFractionValue\<close>, \<^verbatim>\<open>for i := range s\<close>, with its
  two variables \<open>stringValues\<close> and \<open>currentString\<close>; \<open>None\<close> is the panic of a
  store outside \<open>stringValues\<close>. The strings that reach it are ASCII (digits), where
  \<^verbatim>\<open>range\<close> visits every byte and \<^verbatim>\<open>string(s[i])\<close> is that byte.
\<close>

fun fraction_loop ::
  "string \<Rightarrow> nat \<Rightarrow> string list \<Rightarrow> string \<Rightarrow> (string list \<times> string) option" where
  "fraction_loop [] i stringValues currentString = Some (stringValues, currentString)"
| "fraction_loop (c # cs) i stringValues currentString =
     (if i mod 3 = 0 \<and> i \<noteq> 0 then
        (if i div 3 - 1 < length stringValues
         then fraction_loop cs (Suc i) (stringValues[i div 3 - 1 := currentString]) [c]
         else None)
      else fraction_loop cs (Suc i) stringValues (currentString @ [c]))"

definition getFractionValue :: "string \<Rightarrow> fault + int list" where
  "getFractionValue s0 =
     (if s0 = [] then Inr []
      else
        let s = TrimPrefix s0 ''.'';
            expectedValues =
              (if length s mod 3 = 0 then length s div 3 + 1 - 1 else length s div 3 + 1)
        in case fraction_loop s 0 (replicate expectedValues []) [] of
             None \<Rightarrow> Inl (Panic IndexOutOfRange)
           | Some (stringValues, currentString) \<Rightarrow>
               if stringValues = [] then Inl (Panic IndexOutOfRange)
               else parse_each
                 (stringValues[length stringValues - 1 :=
                    currentString @ replicate (3 - length currentString) CHR ''0'']))"

section \<open>The lax grammar's reconstruction\<close>

record laxDotted =
  dotted_integer :: string
  dotted_dottedGroup :: string
  dotted_alpha :: string
  dotted_secondInteger :: string
  dotted_secondDottedGroup :: string
  dotted_secondAlpha :: string

record laxDecimal =
  decimal_integer :: string
  decimal_fraction :: string
  decimal_alpha :: string
  decimal_secondFraction :: string
  decimal_secondAlpha :: string

record lax =
  lax_original :: string
  lax_undef :: string
  lax_dotted :: string
  lax_dottedMatches :: laxDotted
  lax_decimal :: string
  lax_decimalMatches :: laxDecimal

definition laxDotted_toPerlVersionA :: "laxDotted \<Rightarrow> string \<Rightarrow> fault + Version" where
  "laxDotted_toPerlVersionA d orig =
     (let isAlpha = (dotted_alpha d \<noteq> []);
          dotted = (if isAlpha then dotted_dottedGroup d @ TrimPrefix (dotted_alpha d) ''_''
                    else dotted_dottedGroup d)
      in case (if dotted \<noteq> [] then dottedToMinors dotted else Inr []) of
           Inl e \<Rightarrow> Inl e
         | Inr minors \<Rightarrow>
             let numValues = (if length minors < 3 then 3 else length minors);
                 values = replicate numValues 0
             in case mustParseInt64 (dotted_integer d) of
                  Inl e \<Rightarrow> Inl e
                | Inr major \<Rightarrow>
                    (case (if minors \<noteq> [] then copy_tail (values[0 := major]) minors
                           else Inr (values[0 := major])) of
                       Inl e \<Rightarrow> Inl e
                     | Inr values' \<Rightarrow>
                         Inr \<lparr>original = orig, alpha = isAlpha, qv = True,
                              version = values'\<rparr>))"

definition laxDotted_toPerlVersionB :: "laxDotted \<Rightarrow> string \<Rightarrow> fault + Version" where
  "laxDotted_toPerlVersionB d orig =
     (let isAlpha = (dotted_secondAlpha d \<noteq> []);
          dotted = (if isAlpha
                    then dotted_secondDottedGroup d @ TrimPrefix (dotted_secondAlpha d) ''_''
                    else dotted_secondDottedGroup d)
      in case dottedToMinors dotted of
           Inl e \<Rightarrow> Inl e
         | Inr minors \<Rightarrow>
             (case dotted_secondDottedGroup d of
                [] \<Rightarrow> Inl (Panic IndexOutOfRange)
              | c0 # _ \<Rightarrow>
                  let impliedZero = (c0 = CHR ''.'' \<and> dotted_secondInteger d = []);
                      numValues = (if dotted_secondInteger d \<noteq> [] \<or> impliedZero
                                   then length minors + 1 else length minors);
                      values = replicate numValues 0
                  in case (if dotted_secondInteger d \<noteq> [] then
                             (if numValues = 0 then Inl (Panic IndexOutOfRange)
                              else (case mustParseInt64 (dotted_secondInteger d) of
                                      Inl e \<Rightarrow> Inl e
                                    | Inr major \<Rightarrow> Inr (values[0 := major])))
                           else if impliedZero then
                             (if numValues = 0 then Inl (Panic IndexOutOfRange)
                              else Inr (values[0 := 0]))
                           else Inr values) of
                       Inl e \<Rightarrow> Inl e
                     | Inr values1 \<Rightarrow>
                         (case (if minors \<noteq> [] then copy_tail values1 minors
                                else Inr values1) of
                            Inl e \<Rightarrow> Inl e
                          | Inr values' \<Rightarrow>
                              Inr \<lparr>original = orig, alpha = (dotted_secondAlpha d \<noteq> []),
                                   qv = (numValues = 3), version = values'\<rparr>)))"

definition laxDotted_toPerlVersion :: "laxDotted \<Rightarrow> string \<Rightarrow> fault + Version" where
  "laxDotted_toPerlVersion d orig =
     (if dotted_integer d \<noteq> [] then laxDotted_toPerlVersionA d orig
      else if dotted_secondDottedGroup d \<noteq> [] then laxDotted_toPerlVersionB d orig
      else Inl (Panic Unreachable))"

definition laxDecimal_toPerlVersionA :: "laxDecimal \<Rightarrow> string \<Rightarrow> fault + Version" where
  "laxDecimal_toPerlVersionA d orig =
     (let isAlpha = (decimal_alpha d \<noteq> [])
      in if isAlpha \<and> decimal_fraction d = [] then Inl (Error ErrAlphaWithoutDecimal)
         else
           let fractionStr = (if isAlpha
                              then decimal_fraction d @ TrimPrefix (decimal_alpha d) ''_''
                              else decimal_fraction d)
           in case getFractionValue fractionStr of
                Inl e \<Rightarrow> Inl e
              | Inr fractions \<Rightarrow>
                  if orig = [] then Inl (Panic IndexOutOfRange)
                  else
                    let impliedZeroEnd = (last orig = CHR ''.'' \<and> decimal_fraction d = []);
                        numValues = (if impliedZeroEnd then length fractions + 1 + 1
                                     else length fractions + 1);
                        values = replicate numValues 0
                    in case mustParseInt64 (decimal_integer d) of
                         Inl e \<Rightarrow> Inl e
                       | Inr major \<Rightarrow>
                           (case (if fractions \<noteq> [] then copy_tail (values[0 := major]) fractions
                                  else Inr (values[0 := major])) of
                              Inl e \<Rightarrow> Inl e
                            | Inr values' \<Rightarrow>
                                Inr \<lparr>original = orig, alpha = (decimal_alpha d \<noteq> []),
                                     qv = False,
                                     version = (if impliedZeroEnd
                                                then values'[length values' - 1 := 0]
                                                else values')\<rparr>))"

definition laxDecimal_toPerlVersionB :: "laxDecimal \<Rightarrow> string \<Rightarrow> fault + Version" where
  "laxDecimal_toPerlVersionB d orig =
     (let isAlpha = (decimal_secondAlpha d \<noteq> []);
          fractionStr = (if isAlpha
                         then decimal_secondFraction d @ TrimPrefix (decimal_secondAlpha d) ''_''
                         else decimal_secondFraction d)
      in case getFractionValue fractionStr of
           Inl e \<Rightarrow> Inl e
         | Inr fractions \<Rightarrow>
             if fractions = [] then Inl (Panic Unreachable)
             else
               (case copy_tail ((replicate (length fractions + 1) 0)[0 := 0]) fractions of
                  Inl e \<Rightarrow> Inl e
                | Inr values' \<Rightarrow>
                    Inr \<lparr>original = orig, alpha = (decimal_secondAlpha d \<noteq> []),
                         qv = False, version = values'\<rparr>))"

definition laxDecimal_toPerlVersion :: "laxDecimal \<Rightarrow> string \<Rightarrow> fault + Version" where
  "laxDecimal_toPerlVersion d orig =
     (if decimal_integer d \<noteq> [] then laxDecimal_toPerlVersionA d orig
      else if decimal_secondFraction d \<noteq> [] then laxDecimal_toPerlVersionB d orig
      else Inl (Panic Unreachable))"

definition lax_toPerlVersion :: "lax \<Rightarrow> fault + Version" where
  "lax_toPerlVersion d =
     (if lax_undef d \<noteq> [] then
        Inr \<lparr>original = lax_original d, alpha = False, qv = False, version = [0]\<rparr>
      else if lax_dotted d \<noteq> [] then
        laxDotted_toPerlVersion (lax_dottedMatches d) (lax_original d)
      else if lax_decimal d \<noteq> [] then
        laxDecimal_toPerlVersion (lax_decimalMatches d) (lax_original d)
      else Inl (Panic Unreachable))"

text \<open>
  \<^verbatim>\<open>laxVersion\<close> reads \<^verbatim>\<open>matches[0]\<close> to \<^verbatim>\<open>matches[14]\<close>; a shorter slice
  panics.
\<close>

definition laxVersion :: "string list \<Rightarrow> fault + Version" where
  "laxVersion matches =
     (if length matches < 15 then Inl (Panic IndexOutOfRange)
      else lax_toPerlVersion
        \<lparr>lax_original = matches ! 0,
         lax_undef = matches ! 1,
         lax_dotted = matches ! 2,
         lax_dottedMatches =
           \<lparr>dotted_integer = matches ! 3,
            dotted_dottedGroup = matches ! 4,
            dotted_alpha = matches ! 5,
            dotted_secondInteger = matches ! 6,
            dotted_secondDottedGroup = matches ! 7,
            dotted_secondAlpha = matches ! 8\<rparr>,
         lax_decimal = matches ! 9,
         lax_decimalMatches =
           \<lparr>decimal_integer = matches ! 10,
            decimal_fraction = matches ! 11,
            decimal_alpha = matches ! 12,
            decimal_secondFraction = matches ! 13,
            decimal_secondAlpha = matches ! 14\<rparr>\<rparr>)"

section \<open>The strict grammar's reconstruction\<close>

record strictDecimalForm =
  sdec_integerPart :: string
  sdec_fractionPart :: string

record strictDottedForm =
  sdot_integerPart :: string
  sdot_dottedGroup :: string

record strict =
  strict_original :: string
  strict_decimal :: string
  strict_decimalMatches :: strictDecimalForm
  strict_dotted :: string
  strict_dottedMatches :: strictDottedForm

definition strictDecimalForm_toPerlVersion ::
  "strictDecimalForm \<Rightarrow> string \<Rightarrow> fault + Version" where
  "strictDecimalForm_toPerlVersion d orig =
     (let trimmed = TrimPrefix (sdec_fractionPart d) ''.''
      in case getFractionValue trimmed of
           Inl e \<Rightarrow> Inl e
         | Inr fracValues \<Rightarrow>
             (case mustParseInt64 (sdec_integerPart d) of
                Inl e \<Rightarrow> Inl e
              | Inr major \<Rightarrow>
                  (case copy_tail ((replicate (length fracValues + 1) 0)[0 := major])
                          fracValues of
                     Inl e \<Rightarrow> Inl e
                   | Inr values' \<Rightarrow>
                       Inr \<lparr>original = orig, alpha = False, qv = False,
                            version = values'\<rparr>)))"

definition strictDottedForm_toPerlVersion ::
  "strictDottedForm \<Rightarrow> string \<Rightarrow> fault + Version" where
  "strictDottedForm_toPerlVersion d orig =
     (let trimmed = TrimPrefix (sdot_dottedGroup d) ''.'';
          minors = Split trimmed CHR ''.''
      in case mustParseInt64 (sdot_integerPart d) of
           Inl e \<Rightarrow> Inl e
         | Inr major \<Rightarrow>
             (case parse_each minors of
                Inl e \<Rightarrow> Inl e
              | Inr parts \<Rightarrow>
                  Inr \<lparr>original = orig, alpha = False, qv = True,
                       version = major # parts\<rparr>))"

definition strict_toPerlVersion :: "strict \<Rightarrow> fault + Version" where
  "strict_toPerlVersion d =
     (if strict_decimal d \<noteq> [] then
        strictDecimalForm_toPerlVersion (strict_decimalMatches d) (strict_original d)
      else if strict_dotted d \<noteq> [] then
        strictDottedForm_toPerlVersion (strict_dottedMatches d) (strict_original d)
      else Inl (Panic LogicError))"

definition strictVersion :: "string list \<Rightarrow> fault + Version" where
  "strictVersion matches =
     (if length matches < 7 then Inl (Panic IndexOutOfRange)
      else strict_toPerlVersion
        \<lparr>strict_original = matches ! 0,
         strict_decimal = matches ! 1,
         strict_decimalMatches =
           \<lparr>sdec_integerPart = matches ! 2, sdec_fractionPart = matches ! 3\<rparr>,
         strict_dotted = matches ! 4,
         strict_dottedMatches =
           \<lparr>sdot_integerPart = matches ! 5, sdot_dottedGroup = matches ! 6\<rparr>\<rparr>)"

section \<open>Parse\<close>

text \<open>
  \<^verbatim>\<open>Parse\<close>. The lax stage returns early in two places and otherwise falls out of
  its \<^verbatim>\<open>if\<close>: \<open>lax_stage\<close> is \<open>Some\<close> of the early result, or \<open>None\<close> for
  falling through to the strict stage. An error of \<^verbatim>\<open>laxVersion\<close> in the second
  place is dropped (\<^verbatim>\<open>if err == nil { return lax, nil }\<close>); a panic is not a
  return value and ends \<^verbatim>\<open>Parse\<close>.
\<close>

definition lax_stage ::
  "string list option \<Rightarrow> string list option \<Rightarrow> (fault + Version) option" where
  "lax_stage laxMatch strictMatch =
     (case laxMatch of
        None \<Rightarrow> None
      | Some lm \<Rightarrow>
          (case strictMatch of
             None \<Rightarrow> Some (laxVersion lm)
           | Some sm \<Rightarrow>
               (case lm of
                  [] \<Rightarrow> Some (Inl (Panic IndexOutOfRange))
                | l0 # _ \<Rightarrow>
                    (case sm of
                       [] \<Rightarrow> Some (Inl (Panic IndexOutOfRange))
                     | s0 # _ \<Rightarrow>
                         if length l0 > length s0 then
                           (case laxVersion lm of
                              Inr v \<Rightarrow> Some (Inr v)
                            | Inl (Panic p) \<Rightarrow> Some (Inl (Panic p))
                            | Inl (Error err) \<Rightarrow> None)
                         else None))))"

definition Parse :: "string \<Rightarrow> fault + Version" where
  "Parse version_str =
     (let laxMatch = FindStringSubmatch laxRegexp version_str;
          strictMatch = FindStringSubmatch strictRegexp version_str
      in case lax_stage laxMatch strictMatch of
           Some r \<Rightarrow> r
         | None \<Rightarrow>
             (case strictMatch of
                Some sm \<Rightarrow> strictVersion sm
              | None \<Rightarrow> Inl (Error (ErrInvalidVersionString version_str))))"

section \<open>Fraction grouping as the specification words it\<close>

text \<open>
  The specification's fraction grouping, for comparison with \<^verbatim>\<open>getFractionValue\<close>:
  split the digits into maximal left-to-right chunks of 3, right-pad a final chunk
  shorter than 3 with the character 0 to width 3, read each chunk as a base-10 integer.
\<close>

fun chunks_of3 :: "string \<Rightarrow> string list" where
  "chunks_of3 s = (if s = [] then [] else take 3 s # chunks_of3 (drop 3 s))"

definition pad3 :: "string \<Rightarrow> string" where
  "pad3 c = c @ replicate (3 - length c) CHR ''0''"

definition pad_final :: "string list \<Rightarrow> string list" where
  "pad_final cs = (if cs = [] then [] else butlast cs @ [pad3 (last cs)])"

definition fraction_grouping :: "string \<Rightarrow> int list" where
  "fraction_grouping s = map dec_value (pad_final (chunks_of3 s))"

section \<open>Fragments as the grammars capture them\<close>

text \<open>
  The shapes of the captured fragments, used to state when a reconstruction returns:
  an integer fragment is a non-empty digit string whose value fits \<^verbatim>\<open>int64\<close>
  (the range that \<^verbatim>\<open>mustParseInt64\<close> accepts), a fraction fragment is empty or
  a dot and digits, an alpha fragment is empty or an underscore and digits.
\<close>

definition digits :: "string \<Rightarrow> bool" where
  "digits s = (s \<noteq> [] \<and> list_all is_digit s)"

definition wf_integer :: "string \<Rightarrow> bool" where
  "wf_integer s = (digits s \<and> dec_value s < 2 ^ 63)"

definition wf_fraction :: "string \<Rightarrow> bool" where
  "wf_fraction f = (f = [] \<or> (take 1 f = ''.'' \<and> digits (drop 1 f)))"

definition wf_alpha :: "string \<Rightarrow> bool" where
  "wf_alpha a = (a = [] \<or> (take 1 a = ''_'' \<and> digits (drop 1 a)))"

fun is_panic :: "fault \<Rightarrow> bool" where
  "is_panic (Panic p) = True"
| "is_panic (Error e) = False"

section \<open>The record codec (MarshalJSON, UnmarshalJSON)\<close>

text \<open>
  Both methods delegate to the standard library: \<^verbatim>\<open>MarshalJSON\<close> copies the four
  fields into an anonymous struct with the keys \<^verbatim>\<open>original\<close>, \<^verbatim>\<open>alpha\<close>,
  \<^verbatim>\<open>qv\<close>, \<^verbatim>\<open>version\<close> and calls \<^verbatim>\<open>json.Marshal\<close>; \<^verbatim>\<open>UnmarshalJSON\<close>
  calls \<^verbatim>\<open>json.Unmarshal\<close> into a struct of the same type and, if that reports no
  error, assigns the four fields to the receiver.

  Package encoding/json is not part of the repository. It is modelled from its
  documentation, on JSON documents: the byte slice that travels between the two
  methods is represented by the document it spells, the printing and the parsing of
  that text being inverse to each other. What the library does to the values is
  modelled: a string is coerced to valid UTF-8 when it is encoded (each byte that is
  not part of a well-formed sequence becomes U+FFFD), a number decodes into
  \<^verbatim>\<open>int64\<close> only within range, a value of the wrong kind is a type error, a null
  leaves the field at its zero value, unknown keys are ignored and keys match up to
  ASCII case.
\<close>

datatype json =
    JNull
  | JBool bool
  | JNumber int
  | JString string
  | JArray "json list"
  | JObject "(string \<times> json) list"

subsection \<open>UTF-8 (package unicode/utf8)\<close>

definition byte_in :: "char \<Rightarrow> nat \<Rightarrow> nat \<Rightarrow> bool" where
  "byte_in c lo hi = (lo \<le> of_char c \<and> (of_char c :: nat) \<le> hi)"

text \<open>
  The length of the well-formed UTF-8 sequence at the head of a string, 0 when there
  is none (the accept ranges of \<^verbatim>\<open>utf8.DecodeRuneInString\<close>: no overlong forms,
  no surrogates, nothing above U+10FFFF).
\<close>

fun rune_len :: "string \<Rightarrow> nat" where
  "rune_len [] = 0"
| "rune_len (b0 # rest) =
     (if byte_in b0 0 127 then 1
      else if byte_in b0 194 223 then
        (case rest of
           b1 # _ \<Rightarrow> if byte_in b1 128 191 then 2 else 0
         | _ \<Rightarrow> 0)
      else if byte_in b0 224 239 then
        (case rest of
           b1 # b2 # _ \<Rightarrow>
             if byte_in b1 (if byte_in b0 224 224 then 160 else 128)
                           (if byte_in b0 237 237 then 159 else 191)
                \<and> byte_in b2 128 191
             then 3 else 0
         | _ \<Rightarrow> 0)
      else if byte_in b0 240 244 then
        (case rest of
           b1 # b2 # b3 # _ \<Rightarrow>
             if byte_in b1 (if byte_in b0 240 240 then 144 else 128)
                           (if byte_in b0 244 244 then 143 else 191)
                \<and> byte_in b2 128 191 \<and> byte_in b3 128 191
             then 4 else 0
         | _ \<Rightarrow> 0)
      else 0)"

text \<open>\<^verbatim>\<open>utf8.ValidString\<close>.\<close>

function ValidString :: "string \<Rightarrow> bool" where
  "ValidString s =
     (if s = [] then True
      else if rune_len s = 0 then False
      else ValidString (drop (rune_len s) s))"
  by pat_completeness auto
termination
  by (relation "measure length") auto

text \<open>
  The coercion of \<^verbatim>\<open>json.Marshal\<close>: well-formed sequences are kept, any other byte
  is replaced by the three bytes of U+FFFD.
\<close>

function coerce_utf8 :: "string \<Rightarrow> string" where
  "coerce_utf8 s =
     (if s = [] then []
      else if rune_len s = 0 then [CHR 0xEF, CHR 0xBF, CHR 0xBD] @ coerce_utf8 (tl s)
      else take (rune_len s) s @ coerce_utf8 (drop (rune_len s) s))"
  by pat_completeness auto
termination
  by (relation "measure length") auto

subsection \<open>Encoding and decoding the four-field struct\<close>

record json_data =
  data_Original :: string
  data_Alpha :: bool
  data_Qv :: bool
  data_Version :: "int list"

definition is_int64 :: "int \<Rightarrow> bool" where
  "is_int64 n = (- (2 ^ 63) \<le> n \<and> n < 2 ^ 63)"

definition json_Marshal :: "json_data \<Rightarrow> json" where
  "json_Marshal d =
     JObject [(''original'', JString (coerce_utf8 (data_Original d))),
              (''alpha'', JBool (data_Alpha d)),
              (''qv'', JBool (data_Qv d)),
              (''version'', JArray (map JNumber (data_Version d)))]"

definition lower_ascii :: "char \<Rightarrow> char" where
  "lower_ascii c = (if byte_in c 65 90 then char_of (of_char c + (32::nat)) else c)"

fun decode_int64s :: "json list \<Rightarrow> int list option" where
  "decode_int64s [] = Some []"
| "decode_int64s (x # xs) =
     (case (case x of
              JNumber n \<Rightarrow> if is_int64 n then Some n else None
            | JNull \<Rightarrow> Some 0
            | _ \<Rightarrow> None) of
        None \<Rightarrow> None
      | Some n \<Rightarrow> (case decode_int64s xs of None \<Rightarrow> None | Some ns \<Rightarrow> Some (n # ns)))"

definition decode_field :: "json_data \<Rightarrow> string \<times> json \<Rightarrow> json_data option" where
  "decode_field d kv =
     (let key = map lower_ascii (fst kv); val = snd kv in
      if key = ''original'' then
        (case val of
           JString s \<Rightarrow> Some (d\<lparr>data_Original := s\<rparr>)
         | JNull \<Rightarrow> Some d
         | _ \<Rightarrow> None)
      else if key = ''alpha'' then
        (case val of
           JBool b \<Rightarrow> Some (d\<lparr>data_Alpha := b\<rparr>)
         | JNull \<Rightarrow> Some d
         | _ \<Rightarrow> None)
      else if key = ''qv'' then
        (case val of
           JBool b \<Rightarrow> Some (d\<lparr>data_Qv := b\<rparr>)
         | JNull \<Rightarrow> Some d
         | _ \<Rightarrow> None)
      else if key = ''version'' then
        (case val of
           JArray xs \<Rightarrow>
             (case decode_int64s xs of
                None \<Rightarrow> None
              | Some ns \<Rightarrow> Some (d\<lparr>data_Version := ns\<rparr>))
         | JNull \<Rightarrow> Some (d\<lparr>data_Version := []\<rparr>)
         | _ \<Rightarrow> None)
      else Some d)"

fun decode_fields :: "json_data \<Rightarrow> (string \<times> json) list \<Rightarrow> json_data option" where
  "decode_fields d [] = Some d"
| "decode_fields d (kv # kvs) =
     (case decode_field d kv of None \<Rightarrow> None | Some d' \<Rightarrow> decode_fields d' kvs)"

definition json_Unmarshal :: "json \<Rightarrow> fault + json_data" where
  "json_Unmarshal j =
     (let zero = \<lparr>data_Original = [], data_Alpha = False, data_Qv = False,
                  data_Version = []\<rparr> in
      case j of
        JObject kvs \<Rightarrow>
          (case decode_fields zero kvs of
             None \<Rightarrow> Inl (Error ErrUnmarshalType)
           | Some d \<Rightarrow> Inr d)
      | JNull \<Rightarrow> Inr zero
      | _ \<Rightarrow> Inl (Error ErrUnmarshalType))"

definition MarshalJSON :: "Version \<Rightarrow> fault + json" where
  "MarshalJSON v =
     Inr (json_Marshal \<lparr>data_Original = original v, data_Alpha = alpha v,
                        data_Qv = qv v, data_Version = version v\<rparr>)"

definition UnmarshalJSON :: "Version \<Rightarrow> json \<Rightarrow> fault + Version" where
  "UnmarshalJSON v data =
     (case json_Unmarshal data of
        Inl err \<Rightarrow> Inl err
      | Inr obj \<Rightarrow>
          Inr (v\<lparr>original := data_Original obj, alpha := data_Alpha obj,
                 qv := data_Qv obj, version := data_Version obj\<rparr>))"

text \<open>
  The round trip that \<^verbatim>\<open>TestVersion_MarshalJSON\<close> runs: marshal \<open>v\<close>, then
  unmarshal the result into a Version \<open>w\<close>.
\<close>

definition decode_encode :: "Version \<Rightarrow> Version \<Rightarrow> fault + Version" where
  "decode_encode w v =
     (case MarshalJSON v of
        Inl err \<Rightarrow> Inl err
      | Inr data \<Rightarrow> UnmarshalJSON w data)"

section \<open>Properties of the comparisons\<close>

lemmas LessThan_loop_unfold = LessThan_loop.simps
lemmas GreaterThan_loop_unfold = GreaterThan_loop.simps

declare LessThan_loop.simps [simp del]
declare GreaterThan_loop.simps [simp del]

lemma LessThan_loop_iff:
  "LessThan_loop i n a b \<longleftrightarrow>
     (\<exists>k. i \<le> k \<and> k < n \<and> a ! k < b ! k \<and> (\<forall>j. i \<le> j \<and> j < k \<longrightarrow> a ! j = b ! j))"
proof (induction i n a b rule: LessThan_loop.induct)
  case (1 i n a b)
  show ?case
  proof (cases "i < n")
    case False
    then show ?thesis
      by (subst LessThan_loop_unfold) auto
  next
    case inb: True
    consider (lt) "a ! i < b ! i" | (gt) "a ! i > b ! i" | (eq) "a ! i = b ! i"
      by linarith
    then show ?thesis
    proof cases
      case lt
      have "i \<le> i \<and> i < n \<and> a ! i < b ! i \<and> (\<forall>j. i \<le> j \<and> j < i \<longrightarrow> a ! j = b ! j)"
        using inb lt by auto
      then have "\<exists>k. i \<le> k \<and> k < n \<and> a ! k < b ! k \<and> (\<forall>j. i \<le> j \<and> j < k \<longrightarrow> a ! j = b ! j)"
        by blast
      moreover have "LessThan_loop i n a b"
        using inb lt by (subst LessThan_loop_unfold) simp
      ultimately show ?thesis by blast
    next
      case gt
      have no: "\<not> (\<exists>k. i \<le> k \<and> k < n \<and> a ! k < b ! k \<and> (\<forall>j. i \<le> j \<and> j < k \<longrightarrow> a ! j = b ! j))"
      proof
        assume "\<exists>k. i \<le> k \<and> k < n \<and> a ! k < b ! k \<and> (\<forall>j. i \<le> j \<and> j < k \<longrightarrow> a ! j = b ! j)"
        then obtain k where k: "i \<le> k" "k < n" "a ! k < b ! k"
          "\<forall>j. i \<le> j \<and> j < k \<longrightarrow> a ! j = b ! j" by blast
        show False
        proof (cases "k = i")
          case True
          with k gt show False by simp
        next
          case False
          with k have "a ! i = b ! i" by simp
          with gt show False by simp
        qed
      qed
      have "\<not> LessThan_loop i n a b"
        using inb gt by (subst LessThan_loop_unfold) simp
      with no show ?thesis by blast
    next
      case eq
      have step: "LessThan_loop i n a b = LessThan_loop (Suc i) n a b"
        using inb eq by (subst LessThan_loop_unfold) simp
      have ih: "LessThan_loop (Suc i) n a b \<longleftrightarrow>
          (\<exists>k. Suc i \<le> k \<and> k < n \<and> a ! k < b ! k \<and> (\<forall>j. Suc i \<le> j \<and> j < k \<longrightarrow> a ! j = b ! j))"
        using "1.IH" inb eq by simp
      have "(\<exists>k. Suc i \<le> k \<and> k < n \<and> a ! k < b ! k \<and> (\<forall>j. Suc i \<le> j \<and> j < k \<longrightarrow> a ! j = b ! j))
          \<longleftrightarrow> (\<exists>k. i \<le> k \<and> k < n \<and> a ! k < b ! k \<and> (\<forall>j. i \<le> j \<and> j < k \<longrightarrow> a ! j = b ! j))"
      proof
        assume "\<exists>k. Suc i \<le> k \<and> k < n \<and> a ! k < b ! k \<and> (\<forall>j. Suc i \<le> j \<and> j < k \<longrightarrow> a ! j = b ! j)"
        then obtain k where k: "Suc i \<le> k" "k < n" "a ! k < b ! k"
          "\<forall>j. Suc i \<le> j \<and> j < k \<longrightarrow> a ! j = b ! j" by blast
        have "\<forall>j. i \<le> j \<and> j < k \<longrightarrow> a ! j = b ! j"
        proof (intro allI impI)
          fix j assume j: "i \<le> j \<and> j < k"
          show "a ! j = b ! j"
          proof (cases "j = i")
            case True
            with eq show ?thesis by simp
          next
            case False
            with j have "Suc i \<le> j \<and> j < k" by simp
            with k show ?thesis by blast
          qed
        qed
        with k have "i \<le> k \<and> k < n \<and> a ! k < b ! k \<and> (\<forall>j. i \<le> j \<and> j < k \<longrightarrow> a ! j = b ! j)"
          by simp
        then show "\<exists>k. i \<le> k \<and> k < n \<and> a ! k < b ! k \<and> (\<forall>j. i \<le> j \<and> j < k \<longrightarrow> a ! j = b ! j)"
          by blast
      next
        assume "\<exists>k. i \<le> k \<and> k < n \<and> a ! k < b ! k \<and> (\<forall>j. i \<le> j \<and> j < k \<longrightarrow> a ! j = b ! j)"
        then obtain k where k: "i \<le> k" "k < n" "a ! k < b ! k"
          "\<forall>j. i \<le> j \<and> j < k \<longrightarrow> a ! j = b ! j" by blast
        have "k \<noteq> i" using k eq by auto
        with k have "Suc i \<le> k \<and> k < n \<and> a ! k < b ! k \<and> (\<forall>j. Suc i \<le> j \<and> j < k \<longrightarrow> a ! j = b ! j)"
          by simp
        then show "\<exists>k. Suc i \<le> k \<and> k < n \<and> a ! k < b ! k \<and> (\<forall>j. Suc i \<le> j \<and> j < k \<longrightarrow> a ! j = b ! j)"
          by blast
      qed
      with step ih show ?thesis by simp
    qed
  qed
qed

lemma GreaterThan_loop_swap: "GreaterThan_loop i n a b = LessThan_loop i n b a"
proof (induction i n a b rule: GreaterThan_loop.induct)
  case (1 i n a b)
  show ?case
  proof (cases "i < n")
    case False
    then show ?thesis
      by (subst GreaterThan_loop_unfold, subst LessThan_loop_unfold) simp
  next
    case True
    then show ?thesis
      using "1.IH"
      by (subst GreaterThan_loop_unfold, subst LessThan_loop_unfold) auto
  qed
qed

lemma min_int_commute: "min_int a b = min_int b a"
  by (simp add: min_int_def)

lemma GreaterThan_swap: "GreaterThan v w = LessThan w v"
  by (simp add: GreaterThan_def LessThan_def GreaterThan_loop_swap min_int_commute)

lemma LessThan_iff:
  "LessThan v w \<longleftrightarrow>
     (\<exists>k. k < min_int (length (version v)) (length (version w))
          \<and> version v ! k < version w ! k
          \<and> (\<forall>j. j < k \<longrightarrow> version v ! j = version w ! j))"
  by (simp add: LessThan_def LessThan_loop_iff)

lemma Equal_iff:
  "Equal v w \<longleftrightarrow>
     (\<forall>i. i < min_int (length (version v)) (length (version w))
          \<longrightarrow> version v ! i = version w ! i)"
proof
  assume eq: "Equal v w"
  show "\<forall>i. i < min_int (length (version v)) (length (version w))
          \<longrightarrow> version v ! i = version w ! i"
  proof (rule ccontr)
    assume "\<not> ?thesis"
    then have ex: "\<exists>i. i < min_int (length (version v)) (length (version w))
        \<and> version v ! i \<noteq> version w ! i" by blast
    define k where "k = (LEAST i. i < min_int (length (version v)) (length (version w))
        \<and> version v ! i \<noteq> version w ! i)"
    have kp: "k < min_int (length (version v)) (length (version w))
        \<and> version v ! k \<noteq> version w ! k"
      unfolding k_def using ex by (rule LeastI_ex)
    have kmin: "\<forall>j. j < k \<longrightarrow> version v ! j = version w ! j"
    proof (intro allI impI)
      fix j assume jk: "j < k"
      show "version v ! j = version w ! j"
      proof (rule ccontr)
        assume ne: "version v ! j \<noteq> version w ! j"
        have "j < min_int (length (version v)) (length (version w))"
          using jk kp by simp
        with ne have "k \<le> j" unfolding k_def by (intro Least_le) simp
        with jk show False by simp
      qed
    qed
    have kmin': "\<forall>j. j < k \<longrightarrow> version w ! j = version v ! j"
      using kmin by simp
    have "version v ! k < version w ! k \<or> version w ! k < version v ! k"
      using kp by linarith
    then have "LessThan v w \<or> LessThan w v"
    proof
      assume "version v ! k < version w ! k"
      with kp kmin have "LessThan v w"
        unfolding LessThan_iff by blast
      then show ?thesis ..
    next
      assume "version w ! k < version v ! k"
      moreover have "k < min_int (length (version w)) (length (version v))"
        using kp by (simp add: min_int_commute)
      ultimately have "LessThan w v"
        unfolding LessThan_iff using kmin' by blast
      then show ?thesis ..
    qed
    with eq show False
      by (simp add: Equal_def GreaterThan_swap)
  qed
next
  assume all: "\<forall>i. i < min_int (length (version v)) (length (version w))
          \<longrightarrow> version v ! i = version w ! i"
  have "\<not> LessThan v w"
    unfolding LessThan_iff using all by fastforce
  moreover have "\<not> LessThan w v"
    unfolding LessThan_iff using all by (fastforce simp: min_int_commute)
  ultimately show "Equal v w"
    by (simp add: Equal_def GreaterThan_swap)
qed

lemma LessThan_asym: "LessThan v w \<Longrightarrow> \<not> LessThan w v"
proof
  assume a: "LessThan v w" and b: "LessThan w v"
  from a obtain k where k: "k < min_int (length (version v)) (length (version w))"
    "version v ! k < version w ! k" "\<forall>j. j < k \<longrightarrow> version v ! j = version w ! j"
    unfolding LessThan_iff by blast
  from b obtain m where m: "m < min_int (length (version w)) (length (version v))"
    "version w ! m < version v ! m" "\<forall>j. j < m \<longrightarrow> version w ! j = version v ! j"
    unfolding LessThan_iff by blast
  consider "k < m" | "m < k" | "k = m" by linarith
  then show False
  proof cases
    case 1
    with m(3) k(2) show False by simp
  next
    case 2
    with k(3) m(2) show False by simp
  next
    case 3
    with k(2) m(2) show False by simp
  qed
qed

lemma Compare_cases:
  "(Compare v w = - 1 \<longleftrightarrow> LessThan v w)
   \<and> (Compare v w = 1 \<longleftrightarrow> GreaterThan v w)
   \<and> (Compare v w = 0 \<longleftrightarrow> Equal v w)"
proof -
  have excl: "\<not> (LessThan v w \<and> GreaterThan v w)"
    using LessThan_asym [of v w] by (auto simp: GreaterThan_swap)
  show ?thesis
    using excl by (auto simp: Compare_def Equal_def)
qed

text \<open>
  C6. Comparison is prefix-limited lexicographic. Two Versions are Equal exactly when
  their components agree on every index below the common length (the minimum of the two
  lengths), whatever trailing components either has. Equal is reflexive and symmetric,
  but not transitive: a Version with components [5] is Equal to one with [5,1] and to
  one with [5,2], while [5,1] and [5,2] are NotEqual. Compare returns -1 exactly when
  LessThan holds, 1 exactly when GreaterThan holds and 0 exactly when Equal holds,
  and LessThan is decided by the first index where the components differ.
\<close>

theorem Equal_prefix_limited:
  "(Equal v w \<longleftrightarrow>
      (\<forall>i. i < min (length (version v)) (length (version w))
         \<longrightarrow> version v ! i = version w ! i))
   \<and> (LessThan v w \<longleftrightarrow>
      (\<exists>k. k < min (length (version v)) (length (version w))
         \<and> version v ! k < version w ! k
         \<and> (\<forall>j. j < k \<longrightarrow> version v ! j = version w ! j)))
   \<and> GreaterThan v w = LessThan w v
   \<and> Equal v v
   \<and> (Equal v w \<longleftrightarrow> Equal w v)
   \<and> Equal \<lparr>original = o1, alpha = a1, qv = q1, version = [5]\<rparr>
            \<lparr>original = o2, alpha = a2, qv = q2, version = [5, 1]\<rparr>
   \<and> Equal \<lparr>original = o1, alpha = a1, qv = q1, version = [5]\<rparr>
            \<lparr>original = o3, alpha = a3, qv = q3, version = [5, 2]\<rparr>
   \<and> NotEqual \<lparr>original = o2, alpha = a2, qv = q2, version = [5, 1]\<rparr>
               \<lparr>original = o3, alpha = a3, qv = q3, version = [5, 2]\<rparr>
   \<and> \<not> (\<forall>x y z. Equal x y \<and> Equal y z \<longrightarrow> Equal x z)
   \<and> Compare v w \<in> {- 1, 0, 1}
   \<and> (Compare v w = - 1 \<longleftrightarrow> LessThan v w)
   \<and> (Compare v w = 1 \<longleftrightarrow> GreaterThan v w)
   \<and> (Compare v w = 0 \<longleftrightarrow> Equal v w)"
proof -
  have min_eq: "\<And>a b. min_int a b = min a b"
    by (simp add: min_int_def min_def)
  have p1: "Equal v w \<longleftrightarrow>
      (\<forall>i. i < min (length (version v)) (length (version w))
         \<longrightarrow> version v ! i = version w ! i)"
    using Equal_iff [of v w] by (simp only: min_eq)
  have p2: "LessThan v w \<longleftrightarrow>
      (\<exists>k. k < min (length (version v)) (length (version w))
         \<and> version v ! k < version w ! k
         \<and> (\<forall>j. j < k \<longrightarrow> version v ! j = version w ! j))"
    using LessThan_iff [of v w] by (simp only: min_eq)
  have p3: "GreaterThan v w = LessThan w v"
    by (rule GreaterThan_swap)
  have p4: "Equal v v"
    by (simp add: Equal_iff)
  have p5: "Equal v w \<longleftrightarrow> Equal w v"
    by (auto simp: Equal_iff min_int_commute)
  have p6: "Equal \<lparr>original = o1, alpha = a1, qv = q1, version = [5]\<rparr>
            \<lparr>original = o2, alpha = a2, qv = q2, version = [5, 1]\<rparr>"
    by (simp add: Equal_iff min_int_def)
  have p7: "Equal \<lparr>original = o1, alpha = a1, qv = q1, version = [5]\<rparr>
            \<lparr>original = o3, alpha = a3, qv = q3, version = [5, 2]\<rparr>"
    by (simp add: Equal_iff min_int_def)
  have ne: "\<not> Equal \<lparr>original = o2, alpha = a2, qv = q2, version = [5, 1]\<rparr>
               \<lparr>original = o3, alpha = a3, qv = q3, version = [5, 2]\<rparr>"
  proof
    assume "Equal \<lparr>original = o2, alpha = a2, qv = q2, version = [5, 1]\<rparr>
               \<lparr>original = o3, alpha = a3, qv = q3, version = [5, 2]\<rparr>"
    then have "\<forall>i. i < min_int (length [5, 1::int]) (length [5, 2::int])
        \<longrightarrow> [5, 1::int] ! i = [5, 2] ! i"
      by (simp only: Equal_iff Version.simps)
    then have "(1::nat) < min_int (length [5, 1::int]) (length [5, 2::int])
        \<longrightarrow> [5, 1::int] ! 1 = [5, 2] ! 1"
      by (rule spec)
    then show False by (simp add: min_int_def)
  qed
  then have p8: "NotEqual \<lparr>original = o2, alpha = a2, qv = q2, version = [5, 1]\<rparr>
               \<lparr>original = o3, alpha = a3, qv = q3, version = [5, 2]\<rparr>"
    by (simp add: NotEqual_def)
  have p9: "\<not> (\<forall>x y z. Equal x y \<and> Equal y z \<longrightarrow> Equal x z)"
  proof
    assume tr: "\<forall>x y z. Equal x y \<and> Equal y z \<longrightarrow> Equal x z"
    have "Equal \<lparr>original = o2, alpha = a2, qv = q2, version = [5, 1]\<rparr>
            \<lparr>original = o1, alpha = a1, qv = q1, version = [5]\<rparr>"
      by (simp add: Equal_iff min_int_def)
    with p7 tr have "Equal \<lparr>original = o2, alpha = a2, qv = q2, version = [5, 1]\<rparr>
               \<lparr>original = o3, alpha = a3, qv = q3, version = [5, 2]\<rparr>"
      by blast
    with ne show False by simp
  qed
  have p10: "Compare v w \<in> {- 1, 0, 1}"
    by (simp add: Compare_def)
  note p11 = Compare_cases [of v w]
  from p1 p2 p3 p4 p5 p6 p7 p8 p9 p10 p11 show ?thesis
    by (intro conjI) (simp_all only: simp_thms)
qed

theorem Equal_prefix_limited_witness:
  "Equal \<lparr>original = ''5'', alpha = False, qv = False, version = [5]\<rparr>
         \<lparr>original = ''5.001'', alpha = False, qv = False, version = [5, 1]\<rparr>
   \<and> Compare \<lparr>original = ''5'', alpha = False, qv = False, version = [5]\<rparr>
         \<lparr>original = ''5.001'', alpha = False, qv = False, version = [5, 1]\<rparr> = 0
   \<and> LessThan \<lparr>original = ''5.001'', alpha = False, qv = False, version = [5, 1]\<rparr>
         \<lparr>original = ''5.002'', alpha = False, qv = False, version = [5, 2]\<rparr>
   \<and> Compare \<lparr>original = ''5.001'', alpha = False, qv = False, version = [5, 1]\<rparr>
         \<lparr>original = ''5.002'', alpha = False, qv = False, version = [5, 2]\<rparr> = - 1"
proof -
  let ?a = "\<lparr>original = ''5'', alpha = False, qv = False, version = [5]\<rparr>"
  let ?b = "\<lparr>original = ''5.001'', alpha = False, qv = False, version = [5, 1]\<rparr>"
  let ?c = "\<lparr>original = ''5.002'', alpha = False, qv = False, version = [5, 2]\<rparr>"
  have h1: "\<forall>i. i < min (length (version ?a)) (length (version ?b))
      \<longrightarrow> version ?a ! i = version ?b ! i"
    by simp
  have h2: "\<exists>k. k < min (length (version ?b)) (length (version ?c))
      \<and> version ?b ! k < version ?c ! k
      \<and> (\<forall>j. j < k \<longrightarrow> version ?b ! j = version ?c ! j)"
    by (rule exI [of _ 1]) simp
  from h1 Equal_prefix_limited [of ?a ?b] have e: "Equal ?a ?b" by blast
  from e Equal_prefix_limited [of ?a ?b] have c0: "Compare ?a ?b = 0" by blast
  from h2 Equal_prefix_limited [of ?b ?c] have l: "LessThan ?b ?c" by blast
  from l Equal_prefix_limited [of ?b ?c] have c1: "Compare ?b ?c = - 1" by blast
  from e c0 l c1 show ?thesis by blast
qed

text \<open>
  C10. Every comparison depends only on the components: replacing the original text,
  the alpha flag and the qv flag of both operands by arbitrary other values leaves
  Compare, LessThan, GreaterThan and Equal (and the three operations derived from
  them) unchanged.
\<close>

theorem Compare_components_only:
  assumes "version v' = version v" and "version w' = version w"
  shows "Compare v' w' = Compare v w
    \<and> LessThan v' w' = LessThan v w
    \<and> GreaterThan v' w' = GreaterThan v w
    \<and> Equal v' w' = Equal v w
    \<and> NotEqual v' w' = NotEqual v w
    \<and> LessThanOrEqual v' w' = LessThanOrEqual v w
    \<and> GreaterThanOrEqual v' w' = GreaterThanOrEqual v w"
  using assms
  by (simp add: Compare_def LessThan_def GreaterThan_def Equal_def NotEqual_def
      LessThanOrEqual_def GreaterThanOrEqual_def)

theorem Compare_components_only_witness:
  "Compare \<lparr>original = ''junk'', alpha = True, qv = True, version = [1, 2, 3]\<rparr>
           \<lparr>original = ''x'', alpha = True, qv = False, version = [1, 20]\<rparr>
   = Compare \<lparr>original = ''v1.2.3'', alpha = False, qv = True, version = [1, 2, 3]\<rparr>
           \<lparr>original = ''1.02'', alpha = False, qv = False, version = [1, 20]\<rparr>"
proof -
  let ?v' = "\<lparr>original = ''junk'', alpha = True, qv = True, version = [1, 2, 3]\<rparr>"
  let ?w' = "\<lparr>original = ''x'', alpha = True, qv = False, version = [1, 20]\<rparr>"
  let ?v = "\<lparr>original = ''v1.2.3'', alpha = False, qv = True, version = [1, 2, 3]\<rparr>"
  let ?w = "\<lparr>original = ''1.02'', alpha = False, qv = False, version = [1, 20]\<rparr>"
  have a: "version ?v' = version ?v" by simp
  have b: "version ?w' = version ?w" by simp
  from Compare_components_only [OF a b] show ?thesis by blast
qed

declare chunks_of3.simps [simp del]

lemma chunks_of3_Nil [simp]: "chunks_of3 [] = []"
  by (simp add: chunks_of3.simps)

lemma chunks_of3_nonempty: "s \<noteq> [] \<Longrightarrow> chunks_of3 s = take 3 s # chunks_of3 (drop 3 s)"
  by (subst chunks_of3.simps) simp

lemma chunks_of3_short: "s \<noteq> [] \<Longrightarrow> length s \<le> 3 \<Longrightarrow> chunks_of3 s = [s]"
  by (simp add: chunks_of3_nonempty)

lemma chunks_of3_append3: "length c = 3 \<Longrightarrow> chunks_of3 (c @ s) = c # chunks_of3 s"
  by (subst chunks_of3_nonempty) auto

lemma chunks_of3_eq_Nil [simp]: "chunks_of3 s = [] \<longleftrightarrow> s = []"
  by (cases "s = []") (simp_all add: chunks_of3_nonempty)

lemma length_chunks_of3:
  "length (chunks_of3 s) =
     (if length s mod 3 = 0 then length s div 3 + 1 - 1 else length s div 3 + 1)"
proof (induction s rule: chunks_of3.induct)
  case (1 s)
  show ?case
  proof (cases "s = []")
    case True
    then show ?thesis by simp
  next
    case False
    let ?n = "length s"
    have ih: "length (chunks_of3 (drop 3 s)) =
        (if (?n - 3) mod 3 = 0 then (?n - 3) div 3 + 1 - 1 else (?n - 3) div 3 + 1)"
      using 1 False by simp
    have unf: "length (chunks_of3 s) = Suc (length (chunks_of3 (drop 3 s)))"
      using False by (simp add: chunks_of3_nonempty)
    show ?thesis
    proof (cases "3 \<le> ?n")
      case True
      have d: "?n div 3 = Suc ((?n - 3) div 3)"
        using True by (simp add: le_div_geq)
      have m: "?n mod 3 = (?n - 3) mod 3"
        using True by (simp add: le_mod_geq)
      show ?thesis using unf ih d m by simp
    next
      case small: False
      have pos: "0 < ?n" using False by simp
      have "?n - 3 = 0" using small by simp
      moreover have "?n div 3 = 0" using small by simp
      moreover have "?n mod 3 = ?n" using small by simp
      ultimately show ?thesis using unf ih pos by simp
    qed
  qed
qed

lemma chunks_of3_elems:
  "c \<in> set (chunks_of3 s) \<Longrightarrow> c \<noteq> [] \<and> length c \<le> 3 \<and> set c \<subseteq> set s"
proof (induction s rule: chunks_of3.induct)
  case (1 s)
  show ?case
  proof (cases "s = []")
    case True
    with 1 show ?thesis by simp
  next
    case False
    from 1(2) False have "c = take 3 s \<or> c \<in> set (chunks_of3 (drop 3 s))"
      by (simp add: chunks_of3_nonempty)
    then show ?thesis
    proof
      assume "c = take 3 s"
      with False show ?thesis by (auto dest: in_set_takeD)
    next
      assume "c \<in> set (chunks_of3 (drop 3 s))"
      with 1(1) False have "c \<noteq> [] \<and> length c \<le> 3 \<and> set c \<subseteq> set (drop 3 s)" by simp
      then show ?thesis by (auto dest: in_set_dropD)
    qed
  qed
qed

lemma digit_value_bounds: "0 \<le> digit_value c \<and> digit_value c \<le> 9"
  by (simp add: digit_value_def)

lemma dec_value_snoc: "dec_value (ds @ [c]) = 10 * dec_value ds + digit_value c"
  by (simp add: dec_value_def)

lemma dec_value_bound: "0 \<le> dec_value ds \<and> dec_value ds < 10 ^ length ds"
proof (induction ds rule: rev_induct)
  case Nil
  show ?case by (simp add: dec_value_def)
next
  case (snoc c ds)
  have "0 \<le> digit_value c" "digit_value c \<le> 9"
    using digit_value_bounds [of c] by simp_all
  with snoc show ?case
    by (simp add: dec_value_snoc)
qed

lemma Atoi_digits:
  assumes "ds \<noteq> []" and "list_all is_digit ds" and "dec_value ds < 2 ^ 63"
  shows "Atoi ds = Some (dec_value ds)"
proof -
  from assms(1) obtain c cs where ds: "ds = c # cs" by (cases ds) auto
  with assms(2) have "is_digit c" by simp
  then have "c \<noteq> CHR ''+''" "c \<noteq> CHR ''-''"
    by (auto simp: is_digit_def)
  with ds assms show ?thesis
    by (simp add: Atoi_def)
qed

lemma mustParseInt64_digits:
  "ds \<noteq> [] \<Longrightarrow> list_all is_digit ds \<Longrightarrow> dec_value ds < 2 ^ 63
   \<Longrightarrow> mustParseInt64 ds = Inr (dec_value ds)"
  by (simp add: mustParseInt64_def Atoi_digits)

lemma mustParseInt64_short:
  assumes "ds \<noteq> []" and "list_all is_digit ds" and "length ds \<le> 3"
  shows "mustParseInt64 ds = Inr (dec_value ds)"
proof -
  have "dec_value ds < 10 ^ length ds" using dec_value_bound [of ds] by simp
  also have "(10::int) ^ length ds \<le> 10 ^ 3"
    using assms(3) by (intro power_increasing) simp_all
  also have "(10::int) ^ 3 < 2 ^ 63" by simp
  finally show ?thesis using assms by (simp add: mustParseInt64_digits)
qed

lemma parse_each_short:
  "\<forall>c \<in> set cs. c \<noteq> [] \<and> list_all is_digit c \<and> length c \<le> 3
   \<Longrightarrow> parse_each cs = Inr (map dec_value cs)"
  by (induction cs) (simp_all add: mustParseInt64_short)



lemma fraction_loop_chunks:
  assumes "cur \<noteq> []" and "length cur \<le> 3" and "i = 3 * k + length cur"
    and "k + length (chunks_of3 (cur @ cs)) \<le> length sv"
  shows "\<exists>sv' cur'. fraction_loop cs i sv cur = Some (sv', cur')
      \<and> length sv' = length sv
      \<and> (\<forall>j. j < k \<longrightarrow> sv' ! j = sv ! j)
      \<and> cur' = last (chunks_of3 (cur @ cs))
      \<and> (\<forall>j. j < length (chunks_of3 (cur @ cs)) - 1
            \<longrightarrow> sv' ! (k + j) = chunks_of3 (cur @ cs) ! j)"
  using assms
proof (induction cs arbitrary: i k sv cur)
  case Nil
  have "chunks_of3 cur = [cur]" using Nil.prems(1,2) by (rule chunks_of3_short)
  then show ?case by simp
next
  case (Cons c cs)
  show ?case
  proof (cases "length cur = 3")
    case True
    have i3: "i = 3 * k + 3" using Cons.prems(3) True by simp
    have im: "i mod 3 = 0" unfolding i3 by simp
    have i0: "i \<noteq> 0" unfolding i3 by simp
    have kk: "i div 3 - 1 = k" unfolding i3 by simp
    have C: "chunks_of3 (cur @ c # cs) = cur # chunks_of3 ([c] @ cs)"
      using True by (simp add: chunks_of3_append3)
    have kb: "k < length sv" using Cons.prems(4) C by simp
    have step: "fraction_loop (c # cs) i sv cur = fraction_loop cs (Suc i) (sv[k := cur]) [c]"
      using im i0 kb kk by simp
    have p1: "[c] \<noteq> []" by simp
    have p2: "length [c] \<le> 3" by simp
    have p3: "Suc i = 3 * Suc k + length [c]" unfolding i3 by simp
    have p4: "Suc k + length (chunks_of3 ([c] @ cs)) \<le> length (sv[k := cur])"
      using Cons.prems(4) C by simp
    from Cons.IH [OF p1 p2 p3 p4] obtain sv' cur' where
      r: "fraction_loop cs (Suc i) (sv[k := cur]) [c] = Some (sv', cur')"
      and l: "length sv' = length (sv[k := cur])"
      and pres: "\<forall>j. j < Suc k \<longrightarrow> sv' ! j = (sv[k := cur]) ! j"
      and la: "cur' = last (chunks_of3 ([c] @ cs))"
      and el: "\<forall>j. j < length (chunks_of3 ([c] @ cs)) - 1
            \<longrightarrow> sv' ! (Suc k + j) = chunks_of3 ([c] @ cs) ! j"
      by blast
    have ne: "chunks_of3 ([c] @ cs) \<noteq> []" by simp
    have g1: "fraction_loop (c # cs) i sv cur = Some (sv', cur')" using step r by simp
    have g2: "length sv' = length sv" using l by simp
    have g3: "\<forall>j. j < k \<longrightarrow> sv' ! j = sv ! j"
      using pres by simp
    have g4: "cur' = last (chunks_of3 (cur @ c # cs))"
      using la C ne by simp
    have g5: "\<forall>j. j < length (chunks_of3 (cur @ c # cs)) - 1
            \<longrightarrow> sv' ! (k + j) = chunks_of3 (cur @ c # cs) ! j"
    proof (intro allI impI)
      fix j assume j: "j < length (chunks_of3 (cur @ c # cs)) - 1"
      show "sv' ! (k + j) = chunks_of3 (cur @ c # cs) ! j"
      proof (cases j)
        case 0
        have "sv' ! k = (sv[k := cur]) ! k" using pres by simp
        also have "\<dots> = cur" using kb by simp
        finally show ?thesis using 0 C by simp
      next
        case (Suc j')
        have "j' < length (chunks_of3 ([c] @ cs)) - 1" using j Suc C by simp
        with el have "sv' ! (Suc k + j') = chunks_of3 ([c] @ cs) ! j'" by blast
        then show ?thesis using Suc C by simp
      qed
    qed
    from g1 g2 g3 g4 g5 show ?thesis by blast
  next
    case False
    have lt: "length cur < 3" using False Cons.prems(2) by simp
    have pos: "0 < length cur" using Cons.prems(1) by simp
    have im: "i mod 3 = length cur"
      using Cons.prems(3) lt by simp
    have step: "fraction_loop (c # cs) i sv cur = fraction_loop cs (Suc i) sv (cur @ [c])"
      using im pos by simp
    have p1: "cur @ [c] \<noteq> []" by simp
    have p2: "length (cur @ [c]) \<le> 3" using lt by simp
    have p3: "Suc i = 3 * k + length (cur @ [c])" using Cons.prems(3) by simp
    have p4: "k + length (chunks_of3 ((cur @ [c]) @ cs)) \<le> length sv"
      using Cons.prems(4) by simp
    from Cons.IH [OF p1 p2 p3 p4] show ?thesis
      using step by simp
  qed
qed

lemma is_digit_zero: "is_digit CHR ''0''"
  by (simp add: is_digit_def)

lemma pad3_digits:
  assumes "c \<noteq> []" and "length c \<le> 3" and "list_all is_digit c"
  shows "pad3 c \<noteq> [] \<and> list_all is_digit (pad3 c) \<and> length (pad3 c) \<le> 3"
  using assms by (auto simp: pad3_def list_all_iff is_digit_zero)

lemma getFractionValue_trimmed:
  assumes "s0 \<noteq> []" and trim: "TrimPrefix s0 ''.'' = s"
    and "s \<noteq> []" and "list_all is_digit s"
  shows "getFractionValue s0 = Inr (fraction_grouping s)"
proof -
  from assms(3) obtain c cs where s: "s = c # cs" by (cases s) auto
  let ?E = "(if length s mod 3 = 0 then length s div 3 + 1 - 1 else length s div 3 + 1)"
  let ?C = "chunks_of3 s"
  have E: "?E = length ?C" by (simp only: length_chunks_of3)
  have Cne: "?C \<noteq> []" using assms(3) by simp
  have start: "fraction_loop s 0 (replicate ?E []) [] = fraction_loop cs 1 (replicate ?E []) [c]"
    using s by simp
  have p1: "[c] \<noteq> []" by simp
  have p2: "length [c] \<le> 3" by simp
  have p3: "1 = 3 * 0 + length [c]" by simp
  have p4: "0 + length (chunks_of3 ([c] @ cs)) \<le> length (replicate ?E ([]::string))"
    using E s by simp
  from fraction_loop_chunks [OF p1 p2 p3 p4] obtain sv' cur' where
    r: "fraction_loop cs 1 (replicate ?E []) [c] = Some (sv', cur')"
    and l: "length sv' = length (replicate ?E ([]::string))"
    and la: "cur' = last (chunks_of3 ([c] @ cs))"
    and el: "\<forall>j. j < length (chunks_of3 ([c] @ cs)) - 1
          \<longrightarrow> sv' ! (0 + j) = chunks_of3 ([c] @ cs) ! j"
    by blast
  have l': "length sv' = length ?C" using l E by simp
  have la': "cur' = last ?C" using la s by simp
  have el': "\<forall>j. j < length ?C - 1 \<longrightarrow> sv' ! j = ?C ! j" using el s by simp
  have svne: "sv' \<noteq> []" using l' Cne by auto
  have final: "sv'[length sv' - 1 := cur' @ replicate (3 - length cur') CHR ''0''] = pad_final ?C"
  proof (rule nth_equalityI)
    show "length (sv'[length sv' - 1 := cur' @ replicate (3 - length cur') CHR ''0''])
        = length (pad_final ?C)"
      using l' Cne by (simp add: pad_final_def)
  next
    fix j assume "j < length (sv'[length sv' - 1 := cur' @ replicate (3 - length cur') CHR ''0''])"
    then have j: "j < length ?C" using l' by simp
    show "sv'[length sv' - 1 := cur' @ replicate (3 - length cur') CHR ''0''] ! j = pad_final ?C ! j"
    proof (cases "j = length ?C - 1")
      case True
      then show ?thesis
        using l' Cne la' j by (simp add: pad_final_def pad3_def nth_append)
    next
      case False
      with j have jl: "j < length ?C - 1" by simp
      then have "sv' ! j = ?C ! j" using el' by blast
      then show ?thesis
        using l' Cne jl False by (simp add: pad_final_def nth_append nth_butlast)
    qed
  qed
  have elems: "\<forall>c \<in> set (pad_final ?C). c \<noteq> [] \<and> list_all is_digit c \<and> length c \<le> 3"
  proof
    fix x assume "x \<in> set (pad_final ?C)"
    then have "x \<in> set (butlast ?C) \<or> x = pad3 (last ?C)"
      using Cne by (auto simp: pad_final_def)
    then show "x \<noteq> [] \<and> list_all is_digit x \<and> length x \<le> 3"
    proof
      assume "x \<in> set (butlast ?C)"
      then have "x \<in> set ?C" by (rule in_set_butlastD)
      from chunks_of3_elems [OF this] show ?thesis
        using assms(4) by (auto simp: list_all_iff)
    next
      assume x: "x = pad3 (last ?C)"
      have "last ?C \<in> set ?C" using Cne by simp
      from chunks_of3_elems [OF this] have "last ?C \<noteq> []" "length (last ?C) \<le> 3"
        "list_all is_digit (last ?C)"
        using assms(4) by (auto simp: list_all_iff)
      then show ?thesis unfolding x by (rule pad3_digits)
    qed
  qed
  have "getFractionValue s0 = parse_each (pad_final ?C)"
    using assms(1) trim start r svne final
    by (simp add: getFractionValue_def Let_def del: fraction_loop.simps)
  also have "\<dots> = Inr (map dec_value (pad_final ?C))"
    using elems by (rule parse_each_short)
  finally show ?thesis by (simp add: fraction_grouping_def)
qed

lemma TrimPrefix_digit:
  assumes "list_all is_digit s"
  shows "TrimPrefix s ''.'' = s"
proof (cases s)
  case Nil
  then show ?thesis by (simp add: TrimPrefix_def)
next
  case (Cons c cs)
  with assms have "is_digit c" by simp
  then have "c \<noteq> CHR ''.''" by (auto simp: is_digit_def)
  with Cons show ?thesis by (simp add: TrimPrefix_def)
qed

lemma getFractionValue_digits:
  assumes "list_all is_digit s"
  shows "getFractionValue s = Inr (fraction_grouping s)"
proof (cases "s = []")
  case True
  then show ?thesis
    by (simp add: getFractionValue_def fraction_grouping_def pad_final_def)
next
  case False
  from False TrimPrefix_digit [OF assms] False assms show ?thesis
    by (rule getFractionValue_trimmed)
qed

lemma getFractionValue_dot_digits:
  assumes "ds \<noteq> []" and "list_all is_digit ds"
  shows "getFractionValue (CHR ''.'' # ds) = Inr (fraction_grouping ds)"
proof -
  have a: "CHR ''.'' # ds \<noteq> []" by simp
  have b: "TrimPrefix (CHR ''.'' # ds) ''.'' = ds" by (simp add: TrimPrefix_def)
  from a b assms show ?thesis by (rule getFractionValue_trimmed)
qed

lemma concat_chunks_of3: "concat (chunks_of3 s) = s"
proof (induction s rule: chunks_of3.induct)
  case (1 s)
  show ?case
  proof (cases "s = []")
    case True
    then show ?thesis by simp
  next
    case False
    with 1 show ?thesis by (simp add: chunks_of3_nonempty)
  qed
qed

lemma butlast_chunks_of3_length:
  "c \<in> set (butlast (chunks_of3 s)) \<Longrightarrow> length c = 3"
proof (induction s rule: chunks_of3.induct)
  case (1 s)
  show ?case
  proof (cases "s = []")
    case True
    with 1(2) show ?thesis by simp
  next
    case False
    show ?thesis
    proof (cases "drop 3 s = []")
      case True
      with 1(2) False show ?thesis by (simp add: chunks_of3_nonempty)
    next
      case dne: False
      then have "3 < length s" by simp
      then have t: "length (take 3 s) = 3" by simp
      from 1(2) False dne have "c = take 3 s \<or> c \<in> set (butlast (chunks_of3 (drop 3 s)))"
        by (simp add: chunks_of3_nonempty [of s])
      then show ?thesis
      proof
        assume "c = take 3 s"
        with t show ?thesis by simp
      next
        assume "c \<in> set (butlast (chunks_of3 (drop 3 s)))"
        with 1(1) False show ?thesis by simp
      qed
    qed
  qed
qed

text \<open>
  C2. For every string of decimal digits, getFractionValue returns the components of
  fraction grouping: the digits are split left to right into chunks of exactly 3 (only
  the final chunk may be shorter, and the chunks concatenate to the input), a final
  chunk shorter than 3 is right-padded with 0 characters to width 3, and each chunk is
  read as a base-10 integer. "0023" gives [2, 300], "2" gives [200], "002" gives [2]
  and "002003004" gives [2, 3, 4].
\<close>

theorem getFractionValue_grouping:
  "(list_all is_digit s \<longrightarrow>
      getFractionValue s = Inr (map dec_value (pad_final (chunks_of3 s))))
   \<and> concat (chunks_of3 s) = s
   \<and> (\<forall>c \<in> set (butlast (chunks_of3 s)). length c = 3)
   \<and> (\<forall>c \<in> set (chunks_of3 s). 1 \<le> length c \<and> length c \<le> 3)
   \<and> getFractionValue ''0023'' = Inr [2, 300]
   \<and> getFractionValue ''2'' = Inr [200]
   \<and> getFractionValue ''002'' = Inr [2]
   \<and> getFractionValue ''002003004'' = Inr [2, 3, 4]"
proof -
  have p1: "list_all is_digit s \<longrightarrow>
      getFractionValue s = Inr (map dec_value (pad_final (chunks_of3 s)))"
    using getFractionValue_digits [of s] by (simp add: fraction_grouping_def)
  have p2: "concat (chunks_of3 s) = s" by (rule concat_chunks_of3)
  have p3: "\<forall>c \<in> set (butlast (chunks_of3 s)). length c = 3"
    using butlast_chunks_of3_length by blast
  have p4: "\<forall>c \<in> set (chunks_of3 s). 1 \<le> length c \<and> length c \<le> 3"
  proof
    fix c assume "c \<in> set (chunks_of3 s)"
    from chunks_of3_elems [OF this] show "1 \<le> length c \<and> length c \<le> 3"
      by (cases c) simp_all
  qed
  have e1: "getFractionValue ''0023'' = Inr [2, 300]" by code_simp
  have e2: "getFractionValue ''2'' = Inr [200]" by code_simp
  have e3: "getFractionValue ''002'' = Inr [2]" by code_simp
  have e4: "getFractionValue ''002003004'' = Inr [2, 3, 4]" by code_simp
  from p1 p2 p3 p4 e1 e2 e3 e4 show ?thesis by blast
qed

theorem getFractionValue_grouping_witness:
  "list_all is_digit ''00203''
   \<and> getFractionValue ''00203'' = Inr (map dec_value (pad_final (chunks_of3 ''00203'')))
   \<and> map dec_value (pad_final (chunks_of3 ''00203'')) = [2, 30]
   \<and> chunks_of3 ''00203'' = [''002'', ''03'']"
proof -
  have h: "list_all is_digit ''00203''" by (simp add: is_digit_def)
  have v: "map dec_value (pad_final (chunks_of3 ''00203'')) = [2, 30]" by code_simp
  have c: "chunks_of3 ''00203'' = [''002'', ''03'']" by code_simp
  from h getFractionValue_grouping [of "''00203''"]
  have "getFractionValue ''00203'' = Inr (map dec_value (pad_final (chunks_of3 ''00203'')))"
    by blast
  with h v c show ?thesis by blast
qed

section \<open>Which faults the helpers can raise\<close>

lemma mustParseInt64_fault: "mustParseInt64 s = Inl e \<Longrightarrow> is_panic e"
  by (auto simp: mustParseInt64_def split: option.splits)

lemma parse_each_fault: "parse_each ss = Inl e \<Longrightarrow> is_panic e"
proof (induction ss)
  case Nil
  then show ?case by simp
next
  case (Cons s ss)
  then show ?case
    by (auto split: sum.splits dest: mustParseInt64_fault)
qed

lemma dottedToMinors_fault: "dottedToMinors s = Inl e \<Longrightarrow> is_panic e"
  by (auto simp: dottedToMinors_def dest: parse_each_fault)

lemma copy_tail_fault: "copy_tail values src = Inl e \<Longrightarrow> is_panic e"
  by (auto simp: copy_tail_def split: list.splits)

lemma getFractionValue_fault: "getFractionValue s = Inl e \<Longrightarrow> is_panic e"
  by (auto simp: getFractionValue_def Let_def split: if_splits option.splits prod.splits
      dest: parse_each_fault)

lemma is_panic_Error [simp]: "\<not> is_panic (Error e)"
  by simp

lemma go_copy_same_length: "length dst = length src \<Longrightarrow> go_copy dst src = src"
  by (simp add: go_copy_def)

lemma copy_tail_fill:
  "copy_tail ((replicate (Suc (length src)) z)[0 := x]) src = Inr (x # src)"
  by (simp add: copy_tail_def go_copy_same_length)

lemma fraction_grouping_Nil [simp]: "fraction_grouping [] = []"
  by (simp add: fraction_grouping_def pad_final_def)

lemma fraction_grouping_eq_Nil [simp]: "fraction_grouping s = [] \<longleftrightarrow> s = []"
  by (simp add: fraction_grouping_def pad_final_def)

section \<open>Lax decimal reconstruction\<close>

lemma mustParseInt64_overflow:
  assumes "ds \<noteq> []" and "list_all is_digit ds" and "2 ^ 63 \<le> dec_value ds"
  shows "mustParseInt64 ds = Inl (Panic (AtoiFailed ds))"
proof -
  from assms(1) obtain c cs where ds: "ds = c # cs" by (cases ds) auto
  with assms(2) have "is_digit c" by simp
  then have "c \<noteq> CHR ''+''" "c \<noteq> CHR ''-''"
    by (auto simp: is_digit_def)
  with ds assms show ?thesis
    by (simp add: mustParseInt64_def Atoi_def)
qed

lemma copy_tail_replicate:
  "copy_tail (x # replicate (length src) z) src = Inr (x # src)"
  by (simp add: copy_tail_def go_copy_same_length)

lemma copy_tail_length: "copy_tail vs src = Inr vs' \<Longrightarrow> length vs' = length vs"
  by (auto simp: copy_tail_def go_copy_def split: list.splits)

lemma laxDecimal_A_error:
  "decimal_alpha d \<noteq> [] \<and> decimal_fraction d = []
   \<Longrightarrow> laxDecimal_toPerlVersionA d orig = Inl (Error ErrAlphaWithoutDecimal)"
  by (simp add: laxDecimal_toPerlVersionA_def)

lemma laxDecimal_A_fault:
  assumes "\<not> (decimal_alpha d \<noteq> [] \<and> decimal_fraction d = [])"
    and "laxDecimal_toPerlVersionA d orig = Inl e"
  shows "is_panic e"
  using assms
  by (auto simp: laxDecimal_toPerlVersionA_def Let_def
      split: if_splits sum.splits
      dest: getFractionValue_fault mustParseInt64_fault copy_tail_fault)

lemma wf_fraction_cases:
  assumes "wf_fraction f" and "f \<noteq> []"
  obtains fd where "f = CHR ''.'' # fd" and "fd \<noteq> []" and "list_all is_digit fd"
proof -
  from assms obtain c fd where f: "f = c # fd" by (cases f) auto
  with assms have "c = CHR ''.''" "fd \<noteq> []" "list_all is_digit fd"
    by (auto simp: wf_fraction_def digits_def)
  with f that show thesis by blast
qed

lemma wf_alpha_digits:
  assumes "wf_alpha a"
  shows "list_all is_digit (TrimPrefix a ''_'')"
proof (cases a)
  case Nil
  then show ?thesis by (simp add: TrimPrefix_def)
next
  case (Cons c ad)
  with assms have "c = CHR ''_''" "list_all is_digit ad"
    by (auto simp: wf_alpha_def digits_def)
  with Cons show ?thesis by (simp add: TrimPrefix_def)
qed

lemma TrimPrefix_Nil [simp]: "TrimPrefix [] p = []"
  by (simp add: TrimPrefix_def)

lemma laxDecimal_A_value:
  assumes int: "wf_integer (decimal_integer d)"
    and fr: "wf_fraction (decimal_fraction d)"
    and al: "wf_alpha (decimal_alpha d)"
    and o: "orig \<noteq> []"
    and ok: "\<not> (decimal_alpha d \<noteq> [] \<and> decimal_fraction d = [])"
  shows "laxDecimal_toPerlVersionA d orig =
     Inr \<lparr>original = orig, alpha = (decimal_alpha d \<noteq> []), qv = False,
          version = dec_value (decimal_integer d)
            # fraction_grouping (TrimPrefix (decimal_fraction d) ''.''
                                 @ TrimPrefix (decimal_alpha d) ''_'')
            @ (if last orig = CHR ''.'' \<and> decimal_fraction d = [] then [0] else [])\<rparr>"
proof -
  have major: "mustParseInt64 (decimal_integer d) = Inr (dec_value (decimal_integer d))"
    using int by (simp add: wf_integer_def digits_def mustParseInt64_digits)
  show ?thesis
  proof (cases "decimal_fraction d = []")
    case True
    then have a: "decimal_alpha d = []" using ok by simp
    have g: "getFractionValue [] = Inr []" by (simp add: getFractionValue_def)
    show ?thesis
      using True a major o g
      by (simp add: laxDecimal_toPerlVersionA_def Let_def)
  next
    case False
    from fr False obtain fd where f: "decimal_fraction d = CHR ''.'' # fd"
      and fdne: "fd \<noteq> []" and fdd: "list_all is_digit fd"
      by (rule wf_fraction_cases)
    define ad where "ad = TrimPrefix (decimal_alpha d) ''_''"
    have add: "list_all is_digit ad" unfolding ad_def using al by (rule wf_alpha_digits)
    have adn: "decimal_alpha d = [] \<Longrightarrow> ad = []" unfolding ad_def by simp
    have fs: "(if decimal_alpha d \<noteq> [] then decimal_fraction d @ TrimPrefix (decimal_alpha d) ''_''
               else decimal_fraction d) = CHR ''.'' # (fd @ ad)"
      using f adn by (auto simp: ad_def)
    have ne: "fd @ ad \<noteq> []" using fdne by simp
    have dg: "list_all is_digit (fd @ ad)" using fdd add by simp
    have g: "getFractionValue (CHR ''.'' # (fd @ ad)) = Inr (fraction_grouping (fd @ ad))"
      using ne dg by (rule getFractionValue_dot_digits)
    have gne: "fraction_grouping (fd @ ad) \<noteq> []" using ne by simp
    have tf: "TrimPrefix (decimal_fraction d) ''.'' = fd" using f by (simp add: TrimPrefix_def)
    have res: "laxDecimal_toPerlVersionA d orig =
       Inr \<lparr>original = orig, alpha = (decimal_alpha d \<noteq> []), qv = False,
            version = dec_value (decimal_integer d) # fraction_grouping (fd @ ad)\<rparr>"
      using False major o gne
      by (simp add: laxDecimal_toPerlVersionA_def Let_def fs g copy_tail_replicate
          del: fraction_grouping_eq_Nil)
    show ?thesis
      using res False tf by (simp add: ad_def)
  qed
qed

lemma laxDecimal_A_overflow:
  assumes int: "digits (decimal_integer d)"
    and big: "2 ^ 63 \<le> dec_value (decimal_integer d)"
    and fr: "wf_fraction (decimal_fraction d)"
    and al: "wf_alpha (decimal_alpha d)"
    and o: "orig \<noteq> []"
    and ok: "\<not> (decimal_alpha d \<noteq> [] \<and> decimal_fraction d = [])"
  shows "laxDecimal_toPerlVersionA d orig = Inl (Panic (AtoiFailed (decimal_integer d)))"
proof -
  have major: "mustParseInt64 (decimal_integer d) = Inl (Panic (AtoiFailed (decimal_integer d)))"
    using int big by (simp add: digits_def mustParseInt64_overflow)
  show ?thesis
  proof (cases "decimal_fraction d = []")
    case True
    then have a: "decimal_alpha d = []" using ok by simp
    have g: "getFractionValue [] = Inr []" by (simp add: getFractionValue_def)
    show ?thesis
      using True a major o g
      by (simp add: laxDecimal_toPerlVersionA_def Let_def)
  next
    case False
    from fr False obtain fd where f: "decimal_fraction d = CHR ''.'' # fd"
      and fdne: "fd \<noteq> []" and fdd: "list_all is_digit fd"
      by (rule wf_fraction_cases)
    define ad where "ad = TrimPrefix (decimal_alpha d) ''_''"
    have add: "list_all is_digit ad" unfolding ad_def using al by (rule wf_alpha_digits)
    have adn: "decimal_alpha d = [] \<Longrightarrow> ad = []" unfolding ad_def by simp
    have fs: "(if decimal_alpha d \<noteq> [] then decimal_fraction d @ TrimPrefix (decimal_alpha d) ''_''
               else decimal_fraction d) = CHR ''.'' # (fd @ ad)"
      using f adn by (auto simp: ad_def)
    have ne: "fd @ ad \<noteq> []" using fdne by simp
    have dg: "list_all is_digit (fd @ ad)" using fdd add by simp
    have g: "getFractionValue (CHR ''.'' # (fd @ ad)) = Inr (fraction_grouping (fd @ ad))"
      using ne dg by (rule getFractionValue_dot_digits)
    show ?thesis
      using False major o
      by (simp add: laxDecimal_toPerlVersionA_def Let_def fs g)
  qed
qed

text \<open>
  C4, as stated (the error is returned exactly when an alpha suffix is present and
  the fraction is empty, and in every other case the reconstruction succeeds),
  fails in its second half: the leading integer is read by \<^verbatim>\<open>mustParseInt64\<close>,
  which panics on a digit string outside the signed 64-bit range. The lax grammar
  captures "09223372036854775808" as a leading integer with no fraction and no
  alpha; the reconstruction neither returns the error nor succeeds, and the panic
  leaves Parse.
\<close>

theorem laxDecimal_A_counterexample:
  "laxDecimal_toPerlVersionA
     \<lparr>decimal_integer = ''09223372036854775808'', decimal_fraction = [],
      decimal_alpha = [], decimal_secondFraction = [], decimal_secondAlpha = []\<rparr>
     ''09223372036854775808''
   = Inl (Panic (AtoiFailed ''09223372036854775808''))
   \<and> Parse ''09223372036854775808'' = Inl (Panic (AtoiFailed ''09223372036854775808''))"
  by code_simp

text \<open>
  C4, amended. Lax decimal reconstruction with a leading integer
  (laxDecimal.toPerlVersionA) returns the alpha-without-decimal error exactly when an
  alpha suffix is present and the fractional part is empty, and it returns no other
  error value. In every other case, on fragments as the grammar captures them (a
  non-empty digit string, a fraction that is empty or a dot and digits, an alpha that
  is empty or an underscore and digits, a non-empty matched text), it succeeds when
  the leading integer is within the int64 range and panics when it is not. On
  success the Version holds the leading integer, then the 3-digit grouping of the
  fraction digits with the alpha digits appended to them, then one more zero when
  the text ends in a dot with no fraction; qv is false and alpha tells whether the
  suffix is present.
\<close>

theorem laxDecimal_A_alpha_without_decimal:
  "(laxDecimal_toPerlVersionA d orig = Inl (Error ErrAlphaWithoutDecimal)
      \<longleftrightarrow> decimal_alpha d \<noteq> [] \<and> decimal_fraction d = [])
   \<and> (\<forall>e. laxDecimal_toPerlVersionA d orig = Inl (Error e) \<longrightarrow> e = ErrAlphaWithoutDecimal)
   \<and> (wf_integer (decimal_integer d) \<and> wf_fraction (decimal_fraction d)
        \<and> wf_alpha (decimal_alpha d) \<and> orig \<noteq> []
        \<and> \<not> (decimal_alpha d \<noteq> [] \<and> decimal_fraction d = [])
      \<longrightarrow> laxDecimal_toPerlVersionA d orig =
         Inr \<lparr>original = orig, alpha = (decimal_alpha d \<noteq> []), qv = False,
              version = dec_value (decimal_integer d)
                # fraction_grouping (TrimPrefix (decimal_fraction d) ''.''
                                     @ TrimPrefix (decimal_alpha d) ''_'')
                @ (if last orig = CHR ''.'' \<and> decimal_fraction d = [] then [0] else [])\<rparr>)
   \<and> (digits (decimal_integer d) \<and> 2 ^ 63 \<le> dec_value (decimal_integer d)
        \<and> wf_fraction (decimal_fraction d) \<and> wf_alpha (decimal_alpha d) \<and> orig \<noteq> []
        \<and> \<not> (decimal_alpha d \<noteq> [] \<and> decimal_fraction d = [])
      \<longrightarrow> laxDecimal_toPerlVersionA d orig
          = Inl (Panic (AtoiFailed (decimal_integer d))))"
proof -
  have noerr: "\<And>e. \<not> (decimal_alpha d \<noteq> [] \<and> decimal_fraction d = [])
      \<Longrightarrow> laxDecimal_toPerlVersionA d orig \<noteq> Inl (Error e)"
  proof
    fix e
    assume "\<not> (decimal_alpha d \<noteq> [] \<and> decimal_fraction d = [])"
      and "laxDecimal_toPerlVersionA d orig = Inl (Error e)"
    then have "is_panic (Error e)" by (rule laxDecimal_A_fault)
    then show False by simp
  qed
  have p1: "laxDecimal_toPerlVersionA d orig = Inl (Error ErrAlphaWithoutDecimal)
      \<longleftrightarrow> decimal_alpha d \<noteq> [] \<and> decimal_fraction d = []"
    using noerr [of ErrAlphaWithoutDecimal] laxDecimal_A_error [of d orig] by blast
  have p2: "\<forall>e. laxDecimal_toPerlVersionA d orig = Inl (Error e) \<longrightarrow> e = ErrAlphaWithoutDecimal"
  proof (intro allI impI)
    fix e assume r: "laxDecimal_toPerlVersionA d orig = Inl (Error e)"
    with noerr [of e] have "decimal_alpha d \<noteq> [] \<and> decimal_fraction d = []" by blast
    from laxDecimal_A_error [OF this, of orig] r show "e = ErrAlphaWithoutDecimal" by simp
  qed
  have p3: "wf_integer (decimal_integer d) \<and> wf_fraction (decimal_fraction d)
        \<and> wf_alpha (decimal_alpha d) \<and> orig \<noteq> []
        \<and> \<not> (decimal_alpha d \<noteq> [] \<and> decimal_fraction d = [])
      \<longrightarrow> laxDecimal_toPerlVersionA d orig =
         Inr \<lparr>original = orig, alpha = (decimal_alpha d \<noteq> []), qv = False,
              version = dec_value (decimal_integer d)
                # fraction_grouping (TrimPrefix (decimal_fraction d) ''.''
                                     @ TrimPrefix (decimal_alpha d) ''_'')
                @ (if last orig = CHR ''.'' \<and> decimal_fraction d = [] then [0] else [])\<rparr>"
    using laxDecimal_A_value [of d orig] by blast
  have p4: "digits (decimal_integer d) \<and> 2 ^ 63 \<le> dec_value (decimal_integer d)
        \<and> wf_fraction (decimal_fraction d) \<and> wf_alpha (decimal_alpha d) \<and> orig \<noteq> []
        \<and> \<not> (decimal_alpha d \<noteq> [] \<and> decimal_fraction d = [])
      \<longrightarrow> laxDecimal_toPerlVersionA d orig
          = Inl (Panic (AtoiFailed (decimal_integer d)))"
    using laxDecimal_A_overflow [of d orig] by blast
  from p1 p2 p3 p4 show ?thesis by blast
qed

theorem laxDecimal_A_alpha_without_decimal_witness:
  "laxDecimal_toPerlVersionA
     \<lparr>decimal_integer = ''1'', decimal_fraction = ''.02'', decimal_alpha = ''_03'',
      decimal_secondFraction = [], decimal_secondAlpha = []\<rparr> ''1.02_03''
   = Inr \<lparr>original = ''1.02_03'', alpha = True, qv = False, version = [1, 20, 300]\<rparr>
   \<and> laxDecimal_toPerlVersionA
     \<lparr>decimal_integer = ''1'', decimal_fraction = [], decimal_alpha = ''_0'',
      decimal_secondFraction = [], decimal_secondAlpha = []\<rparr> ''1_0''
   = Inl (Error ErrAlphaWithoutDecimal)
   \<and> laxDecimal_toPerlVersionA
     \<lparr>decimal_integer = ''9223372036854775808'', decimal_fraction = ''.5'',
      decimal_alpha = [], decimal_secondFraction = [], decimal_secondAlpha = []\<rparr>
     ''9223372036854775808.5''
   = Inl (Panic (AtoiFailed ''9223372036854775808''))"
proof -
  let ?d = "\<lparr>decimal_integer = ''1'', decimal_fraction = ''.02'', decimal_alpha = ''_03'',
      decimal_secondFraction = [], decimal_secondAlpha = []\<rparr>"
  let ?e = "\<lparr>decimal_integer = ''1'', decimal_fraction = [], decimal_alpha = ''_0'',
      decimal_secondFraction = [], decimal_secondAlpha = []\<rparr>"
  let ?b = "\<lparr>decimal_integer = ''9223372036854775808'', decimal_fraction = ''.5'',
      decimal_alpha = [], decimal_secondFraction = [], decimal_secondAlpha = []\<rparr>"
  have h1: "wf_integer (decimal_integer ?d)" by code_simp
  have h2: "wf_fraction (decimal_fraction ?d)" by code_simp
  have h3: "wf_alpha (decimal_alpha ?d)" by code_simp
  have h4: "''1.02_03'' \<noteq> []" by simp
  have h5: "\<not> (decimal_alpha ?d \<noteq> [] \<and> decimal_fraction ?d = [])" by simp
  have v: "dec_value (decimal_integer ?d)
      # fraction_grouping (TrimPrefix (decimal_fraction ?d) ''.''
                           @ TrimPrefix (decimal_alpha ?d) ''_'')
      @ (if last ''1.02_03'' = CHR ''.'' \<and> decimal_fraction ?d = [] then [0] else [])
      = [1, 20, 300]"
    by code_simp
  from laxDecimal_A_alpha_without_decimal [of ?d "''1.02_03''"] h1 h2 h3 h4 h5
  have "laxDecimal_toPerlVersionA ?d ''1.02_03'' =
         Inr \<lparr>original = ''1.02_03'', alpha = (decimal_alpha ?d \<noteq> []), qv = False,
              version = dec_value (decimal_integer ?d)
                # fraction_grouping (TrimPrefix (decimal_fraction ?d) ''.''
                                     @ TrimPrefix (decimal_alpha ?d) ''_'')
                @ (if last ''1.02_03'' = CHR ''.'' \<and> decimal_fraction ?d = [] then [0] else [])\<rparr>"
    by blast
  then have r1: "laxDecimal_toPerlVersionA ?d ''1.02_03''
      = Inr \<lparr>original = ''1.02_03'', alpha = True, qv = False, version = [1, 20, 300]\<rparr>"
    unfolding v by simp
  have c: "decimal_alpha ?e \<noteq> [] \<and> decimal_fraction ?e = []" by simp
  from laxDecimal_A_alpha_without_decimal [of ?e "''1_0''"] c
  have r2: "laxDecimal_toPerlVersionA ?e ''1_0'' = Inl (Error ErrAlphaWithoutDecimal)"
    by blast
  have b1: "digits (decimal_integer ?b)" by code_simp
  have b2: "2 ^ 63 \<le> dec_value (decimal_integer ?b)" by code_simp
  have b3: "wf_fraction (decimal_fraction ?b)" by code_simp
  have b4: "wf_alpha (decimal_alpha ?b)" by code_simp
  have b5: "''9223372036854775808.5'' \<noteq> []" by simp
  have b6: "\<not> (decimal_alpha ?b \<noteq> [] \<and> decimal_fraction ?b = [])" by simp
  from laxDecimal_A_alpha_without_decimal [of ?b "''9223372036854775808.5''"]
    b1 b2 b3 b4 b5 b6
  have "laxDecimal_toPerlVersionA ?b ''9223372036854775808.5''
      = Inl (Panic (AtoiFailed (decimal_integer ?b)))"
    by blast
  then have r3: "laxDecimal_toPerlVersionA ?b ''9223372036854775808.5''
      = Inl (Panic (AtoiFailed ''9223372036854775808''))"
    by simp
  from r1 r2 r3 show ?thesis by blast
qed

section \<open>Lax dotted reconstruction, sub-form B\<close>

lemma parse_each_wf:
  "\<forall>p \<in> set ps. wf_integer p \<Longrightarrow> parse_each ps = Inr (map dec_value ps)"
  by (induction ps) (simp_all add: wf_integer_def digits_def mustParseInt64_digits)

lemma laxDotted_B_qv_length:
  assumes "laxDotted_toPerlVersionB d orig = Inr v"
  shows "qv v \<longleftrightarrow> length (version v) = 3"
  using assms
  by (auto simp: laxDotted_toPerlVersionB_def Let_def
      split: sum.splits list.splits if_splits
      dest: copy_tail_length)

lemma laxDotted_B_unfold:
  assumes dm: "dottedToMinors
        (if dotted_secondAlpha d \<noteq> []
         then dotted_secondDottedGroup d @ TrimPrefix (dotted_secondAlpha d) ''_''
         else dotted_secondDottedGroup d) = Inr minors"
    and g: "dotted_secondDottedGroup d = CHR ''.'' # rest"
    and mne: "minors \<noteq> []"
    and major: "dotted_secondInteger d \<noteq> []
        \<Longrightarrow> mustParseInt64 (dotted_secondInteger d) = Inr m"
  shows "laxDotted_toPerlVersionB d orig =
     Inr \<lparr>original = orig, alpha = (dotted_secondAlpha d \<noteq> []),
          qv = (length minors = 2),
          version = (if dotted_secondInteger d = [] then 0 else m) # minors\<rparr>"
proof (cases "dotted_secondInteger d = []")
  case True
  show ?thesis
    unfolding laxDotted_toPerlVersionB_def Let_def dm
    using True mne by (simp add: g copy_tail_replicate)
next
  case False
  show ?thesis
    unfolding laxDotted_toPerlVersionB_def Let_def dm
    using False mne major [OF False] by (simp add: g copy_tail_replicate)
qed

lemma Split_nonempty [simp]: "Split s c \<noteq> []"
  by (cases s) (auto split: list.splits)

lemma laxDotted_B_value:
  assumes grp: "take 1 (dotted_secondDottedGroup d) = ''.''"
    and segs: "\<forall>p \<in> set (Split (TrimPrefix (dotted_secondDottedGroup d
                  @ TrimPrefix (dotted_secondAlpha d) ''_'') ''.'') CHR ''.''). wf_integer p"
    and int: "dotted_secondInteger d = [] \<or> wf_integer (dotted_secondInteger d)"
  shows "laxDotted_toPerlVersionB d orig =
     Inr \<lparr>original = orig, alpha = (dotted_secondAlpha d \<noteq> []),
          qv = (length (Split (TrimPrefix (dotted_secondDottedGroup d
                  @ TrimPrefix (dotted_secondAlpha d) ''_'') ''.'') CHR ''.'') = 2),
          version = (if dotted_secondInteger d = [] then 0
                     else dec_value (dotted_secondInteger d))
            # map dec_value (Split (TrimPrefix (dotted_secondDottedGroup d
                  @ TrimPrefix (dotted_secondAlpha d) ''_'') ''.'') CHR ''.'')\<rparr>"
proof -
  let ?dotted = "dotted_secondDottedGroup d @ TrimPrefix (dotted_secondAlpha d) ''_''"
  define segs where "segs = Split (TrimPrefix ?dotted ''.'') CHR ''.''"
  define minors where "minors = map dec_value segs"
  from grp obtain rest where g: "dotted_secondDottedGroup d = CHR ''.'' # rest"
    by (cases "dotted_secondDottedGroup d") auto
  have dsel: "(if dotted_secondAlpha d \<noteq> [] then ?dotted else dotted_secondDottedGroup d) = ?dotted"
    by simp
  have "dottedToMinors ?dotted = Inr (map dec_value segs)"
    unfolding dottedToMinors_def segs_def using segs by (rule parse_each_wf)
  then have dm: "dottedToMinors
        (if dotted_secondAlpha d \<noteq> [] then ?dotted else dotted_secondDottedGroup d) = Inr minors"
    unfolding dsel minors_def .
  have mne: "minors \<noteq> []" unfolding minors_def segs_def by simp
  have major: "dotted_secondInteger d \<noteq> []
      \<Longrightarrow> mustParseInt64 (dotted_secondInteger d) = Inr (dec_value (dotted_secondInteger d))"
    using int by (auto simp: wf_integer_def digits_def mustParseInt64_digits)
  from laxDotted_B_unfold [OF dm g mne major]
  show ?thesis unfolding minors_def segs_def by simp
qed

lemma Parse_dot_1_2:
  "Parse ''.1.2'' = Inr \<lparr>original = ''.1.2'', alpha = False, qv = True, version = [0, 1, 2]\<rparr>"
  by code_simp


lemma Parse_1_2_3_4:
  "Parse ''1.2.3.4''
   = Inr \<lparr>original = ''1.2.3.4'', alpha = False, qv = False, version = [1, 2, 3, 4]\<rparr>"
  by code_simp

lemma lax_match_dot_1_2:
  "FindStringSubmatch laxRegexp ''.1.2''
   = Some [''.1.2'', [], ''.1.2'', [], [], [], [], ''.1.2'', [], [], [], [], [], [], []]"
  by code_simp

lemma lax_match_1_2_3_4:
  "FindStringSubmatch laxRegexp ''1.2.3.4''
   = Some [''1.2.3.4'', [], ''1.2.3.4'', [], [], [], ''1'', ''.2.3.4'', [], [], [], [], [], [], []]"
  by code_simp

text \<open>
  C5. Lax dotted sub-form B (laxDotted.toPerlVersionB). Whenever it returns a Version,
  qv is true exactly when the Version has 3 components, the leading component
  included. It does return on fragments as the grammar captures them (a dotted group
  that starts with a dot and whose dot-separated segments, the alpha digits appended
  to the last, are digit strings within the int64 range; a leading integer that is
  absent or such a digit string): the components are the leading integer, or an
  implied 0 when it is absent, followed by one component for each segment.
  Parse(".1.2") takes this branch and gives [0, 1, 2] with qv true; Parse("1.2.3.4")
  takes it and gives 4 components with qv false.
\<close>

theorem laxDotted_B_qv:
  "(\<forall>v. laxDotted_toPerlVersionB d orig = Inr v \<longrightarrow> (qv v \<longleftrightarrow> length (version v) = 3))
   \<and> (take 1 (dotted_secondDottedGroup d) = ''.''
       \<and> (\<forall>p \<in> set (Split (TrimPrefix (dotted_secondDottedGroup d
                  @ TrimPrefix (dotted_secondAlpha d) ''_'') ''.'') CHR ''.''). wf_integer p)
       \<and> (dotted_secondInteger d = [] \<or> wf_integer (dotted_secondInteger d))
      \<longrightarrow> laxDotted_toPerlVersionB d orig =
          Inr \<lparr>original = orig, alpha = (dotted_secondAlpha d \<noteq> []),
               qv = (length (Split (TrimPrefix (dotted_secondDottedGroup d
                  @ TrimPrefix (dotted_secondAlpha d) ''_'') ''.'') CHR ''.'') = 2),
               version = (if dotted_secondInteger d = [] then 0
                          else dec_value (dotted_secondInteger d))
                 # map dec_value (Split (TrimPrefix (dotted_secondDottedGroup d
                  @ TrimPrefix (dotted_secondAlpha d) ''_'') ''.'') CHR ''.'')\<rparr>)
   \<and> FindStringSubmatch laxRegexp ''.1.2''
       = Some [''.1.2'', [], ''.1.2'', [], [], [], [], ''.1.2'', [], [], [], [], [], [], []]
   \<and> Parse ''.1.2''
       = Inr \<lparr>original = ''.1.2'', alpha = False, qv = True, version = [0, 1, 2]\<rparr>
   \<and> FindStringSubmatch laxRegexp ''1.2.3.4''
       = Some [''1.2.3.4'', [], ''1.2.3.4'', [], [], [], ''1'', ''.2.3.4'', [], [], [], [], [],
               [], []]
   \<and> Parse ''1.2.3.4''
       = Inr \<lparr>original = ''1.2.3.4'', alpha = False, qv = False, version = [1, 2, 3, 4]\<rparr>"
proof -
  have p1: "\<forall>v. laxDotted_toPerlVersionB d orig = Inr v
      \<longrightarrow> (qv v \<longleftrightarrow> length (version v) = 3)"
    using laxDotted_B_qv_length by blast
  have p2: "take 1 (dotted_secondDottedGroup d) = ''.''
       \<and> (\<forall>p \<in> set (Split (TrimPrefix (dotted_secondDottedGroup d
                  @ TrimPrefix (dotted_secondAlpha d) ''_'') ''.'') CHR ''.''). wf_integer p)
       \<and> (dotted_secondInteger d = [] \<or> wf_integer (dotted_secondInteger d))
      \<longrightarrow> laxDotted_toPerlVersionB d orig =
          Inr \<lparr>original = orig, alpha = (dotted_secondAlpha d \<noteq> []),
               qv = (length (Split (TrimPrefix (dotted_secondDottedGroup d
                  @ TrimPrefix (dotted_secondAlpha d) ''_'') ''.'') CHR ''.'') = 2),
               version = (if dotted_secondInteger d = [] then 0
                          else dec_value (dotted_secondInteger d))
                 # map dec_value (Split (TrimPrefix (dotted_secondDottedGroup d
                  @ TrimPrefix (dotted_secondAlpha d) ''_'') ''.'') CHR ''.'')\<rparr>"
    using laxDotted_B_value [of d orig] by blast
  from p1 p2 lax_match_dot_1_2 Parse_dot_1_2 lax_match_1_2_3_4 Parse_1_2_3_4
  show ?thesis by blast
qed

theorem laxDotted_B_qv_witness:
  "laxDotted_toPerlVersionB
     \<lparr>dotted_integer = [], dotted_dottedGroup = [], dotted_alpha = [],
      dotted_secondInteger = [], dotted_secondDottedGroup = ''.1.2'',
      dotted_secondAlpha = []\<rparr> ''.1.2''
   = Inr \<lparr>original = ''.1.2'', alpha = False, qv = True, version = [0, 1, 2]\<rparr>
   \<and> (qv \<lparr>original = ''.1.2'', alpha = False, qv = True, version = [0, 1, 2]\<rparr>
        \<longleftrightarrow> length (version \<lparr>original = ''.1.2'', alpha = False, qv = True,
                                  version = [0, 1, 2]\<rparr>) = 3)"
proof -
  let ?d = "\<lparr>dotted_integer = [], dotted_dottedGroup = [], dotted_alpha = [],
      dotted_secondInteger = [], dotted_secondDottedGroup = ''.1.2'',
      dotted_secondAlpha = []\<rparr>"
  let ?v = "\<lparr>original = ''.1.2'', alpha = False, qv = True, version = [0, 1, 2]\<rparr>"
  have h1: "take 1 (dotted_secondDottedGroup ?d) = ''.''" by simp
  have sp: "Split (TrimPrefix (dotted_secondDottedGroup ?d
      @ TrimPrefix (dotted_secondAlpha ?d) ''_'') ''.'') CHR ''.'' = [''1'', ''2'']"
    by code_simp
  have w1: "wf_integer ''1''" by code_simp
  have w2: "wf_integer ''2''" by code_simp
  have h2: "\<forall>p \<in> set (Split (TrimPrefix (dotted_secondDottedGroup ?d
      @ TrimPrefix (dotted_secondAlpha ?d) ''_'') ''.'') CHR ''.''). wf_integer p"
    unfolding sp using w1 w2 by simp
  have h3: "dotted_secondInteger ?d = [] \<or> wf_integer (dotted_secondInteger ?d)" by simp
  have dv: "map dec_value [''1'', ''2''] = [1, 2]" by code_simp
  from laxDotted_B_qv [of ?d "''.1.2''"] h1 h2 h3
  have "laxDotted_toPerlVersionB ?d ''.1.2'' =
          Inr \<lparr>original = ''.1.2'', alpha = (dotted_secondAlpha ?d \<noteq> []),
               qv = (length (Split (TrimPrefix (dotted_secondDottedGroup ?d
                  @ TrimPrefix (dotted_secondAlpha ?d) ''_'') ''.'') CHR ''.'') = 2),
               version = (if dotted_secondInteger ?d = [] then 0
                          else dec_value (dotted_secondInteger ?d))
                 # map dec_value (Split (TrimPrefix (dotted_secondDottedGroup ?d
                  @ TrimPrefix (dotted_secondAlpha ?d) ''_'') ''.'') CHR ''.'')\<rparr>"
    by blast
  then have r: "laxDotted_toPerlVersionB ?d ''.1.2'' = Inr ?v"
    unfolding sp dv by simp
  from laxDotted_B_qv [of ?d "''.1.2''"] r
  have "qv ?v \<longleftrightarrow> length (version ?v) = 3" by blast
  with r show ?thesis by blast
qed

section \<open>Properties of the matcher\<close>

lemmas rmatch_Eps = rmatch.simps(1)
lemmas rmatch_Chr = rmatch.simps(2)
lemmas rmatch_Cls = rmatch.simps(3)
lemmas rmatch_Cat = rmatch.simps(4)
lemmas rmatch_Alt = rmatch.simps(5)
lemmas rmatch_Opt = rmatch.simps(6)
lemmas rmatch_Star = rmatch.simps(7)
lemmas rmatch_Grp = rmatch.simps(8)
lemmas rmatch_EndText = rmatch.simps(9)

declare rmatch.simps [simp del]

lemma rmatch_caps_length:
  "(rest, caps') \<in> set (rmatch n r s caps) \<Longrightarrow> length caps' = length caps"
proof (induction n r s caps arbitrary: rest caps' rule: rmatch.induct)
  case (1 n s caps)
  then show ?case by (simp add: rmatch_Eps)
next
  case (2 n c s caps)
  then show ?case by (auto simp: rmatch_Chr split: list.splits if_splits)
next
  case (3 n cs s caps)
  then show ?case by (auto simp: rmatch_Cls split: list.splits if_splits)
next
  case (4 n a b s caps)
  from "4.prems" have "\<exists>st1 \<in> set (rmatch n a s caps).
      (rest, caps') \<in> set (rmatch (n + ngroups a) b (fst st1) (snd st1))"
    by (simp add: rmatch_Cat)
  then obtain s1 c1 where st1: "(s1, c1) \<in> set (rmatch n a s caps)"
    and st: "(rest, caps') \<in> set (rmatch (n + ngroups a) b s1 c1)"
    by auto
  have "length caps' = length c1"
    using "4.IH"(2) [OF st1] st by simp
  moreover have "length c1 = length caps"
    using "4.IH"(1) [OF st1] .
  ultimately show ?case by simp
next
  case (5 n a b s caps)
  from "5.prems" have "(rest, caps') \<in> set (rmatch n a s caps)
      \<or> (rest, caps') \<in> set (rmatch (n + ngroups a) b s caps)"
    by (simp add: rmatch_Alt)
  then show ?case using "5.IH" by blast
next
  case (6 n a s caps)
  from "6.prems" have "(rest, caps') \<in> set (rmatch n a s caps) \<or> (rest, caps') = (s, caps)"
    by (auto simp: rmatch_Opt)
  then show ?case using "6.IH" by blast
next
  case (7 n a s caps)
  from "7.prems" have "(\<exists>st1 \<in> set (rmatch n a s caps).
        (rest, caps') \<in> set (if length (fst st1) < length s
            then rmatch n (Star a) (fst st1) (snd st1) else []))
      \<or> (rest, caps') = (s, caps)"
    by (subst (asm) rmatch_Star) auto
  then consider (stop) "(rest, caps') = (s, caps)"
    | (more) s1 c1 where "(s1, c1) \<in> set (rmatch n a s caps)" "length s1 < length s"
        "(rest, caps') \<in> set (rmatch n (Star a) s1 c1)"
    by (auto split: if_splits)
  then show ?case
  proof cases
    case stop
    then show ?thesis by simp
  next
    case more
    have "length caps' = length c1"
      using "7.IH"(2) [OF more(1)] more(2,3) by simp
    moreover have "length c1 = length caps"
      using "7.IH"(1) [OF more(1)] .
    ultimately show ?thesis by simp
  qed
next
  case (8 n a s caps)
  from "8.prems" obtain s1 c1 where st1: "(s1, c1) \<in> set (rmatch (Suc n) a s caps)"
    and c: "caps' = c1[n := take (length s - length s1) s]"
    by (auto simp: rmatch_Grp)
  from "8.IH" [OF st1] c show ?case by simp
next
  case (9 n s caps)
  then show ?case by (auto simp: rmatch_EndText split: if_splits)
qed

lemma rmatch_anchored_rest:
  assumes "(rest, caps') \<in> set (rmatch n (Cat r EndText) s caps)"
  shows "rest = []"
proof -
  from assms have "\<exists>st1 \<in> set (rmatch n r s caps).
      (rest, caps') \<in> set (rmatch (n + ngroups r) EndText (fst st1) (snd st1))"
    by (simp add: rmatch_Cat)
  then show ?thesis by (auto simp: rmatch_EndText split: if_splits)
qed

lemma pick_longest_mem: "pick_longest rs = Some r \<Longrightarrow> r \<in> set rs"
  by (induction rs arbitrary: r) (auto split: option.splits if_splits)

lemma leftmost_Some: "leftmost f js = Some m \<Longrightarrow> \<exists>i \<in> set js. f i = Some m"
  by (induction js) (auto split: option.splits)

lemma match_at_length:
  assumes "match_at re s i = Some m"
  shows "length m = Suc (ngroups re)"
proof -
  from assms obtain rest caps where
    p: "pick_longest (rmatch 1 re (drop i s) (replicate (Suc (ngroups re)) [])) = Some (rest, caps)"
    and m: "m = caps[0 := take (length (drop i s) - length rest) (drop i s)]"
    by (auto simp: match_at_def Let_def split: option.splits)
  from rmatch_caps_length [OF pick_longest_mem [OF p]]
  have "length caps = Suc (ngroups re)" by simp
  with m show ?thesis by simp
qed

lemma match_at_anchored:
  assumes "match_at (Cat r EndText) s i = Some m"
  shows "m ! 0 = drop i s"
proof -
  let ?re = "Cat r EndText"
  from assms obtain rest caps where
    p: "pick_longest (rmatch 1 ?re (drop i s) (replicate (Suc (ngroups ?re)) [])) = Some (rest, caps)"
    and m: "m = caps[0 := take (length (drop i s) - length rest) (drop i s)]"
    by (auto simp: match_at_def Let_def split: option.splits)
  from pick_longest_mem [OF p]
  have mem: "(rest, caps) \<in> set (rmatch 1 ?re (drop i s) (replicate (Suc (ngroups ?re)) []))" .
  from rmatch_anchored_rest [OF mem] have rest: "rest = []" .
  from rmatch_caps_length [OF mem] have "length caps = Suc (ngroups ?re)" by simp
  with m rest show ?thesis by simp
qed

lemma FindStringSubmatch_length:
  "FindStringSubmatch re s = Some m \<Longrightarrow> length m = Suc (ngroups re)"
  unfolding FindStringSubmatch_def
  by (auto dest!: leftmost_Some match_at_length)

lemma FindStringSubmatch_anchored:
  assumes "FindStringSubmatch (Cat r EndText) s = Some m"
  shows "\<exists>i. m ! 0 = drop i s"
proof -
  from assms obtain i where "match_at (Cat r EndText) s i = Some m"
    unfolding FindStringSubmatch_def by (auto dest!: leftmost_Some)
  from match_at_anchored [OF this] show ?thesis by blast
qed

lemma ngroups_laxRegexp: "ngroups laxRegexp = 14"
  by code_simp

lemma ngroups_strictRegexp: "ngroups strictRegexp = 6"
  by code_simp

lemma lax_match_shape:
  assumes "FindStringSubmatch laxRegexp s = Some lm"
  shows "length lm = 15" and "suffix (lm ! 0) s"
proof -
  from FindStringSubmatch_length [OF assms] show "length lm = 15"
    by (simp add: ngroups_laxRegexp)
  from assms have "FindStringSubmatch
      (Cat (Alt laxUndefR (Alt laxDottedFormR laxDecimalFormR)) EndText) s = Some lm"
    by (simp add: laxRegexp_def LaxVersionRegex_def)
  from FindStringSubmatch_anchored [OF this] obtain i where "lm ! 0 = drop i s" by blast
  then show "suffix (lm ! 0) s" by (simp add: suffix_drop)
qed

lemma strict_match_shape:
  assumes "FindStringSubmatch strictRegexp s = Some sm"
  shows "length sm = 7" and "suffix (sm ! 0) s"
proof -
  from FindStringSubmatch_length [OF assms] show "length sm = 7"
    by (simp add: ngroups_strictRegexp)
  from assms have "FindStringSubmatch
      (Cat (Alt strictDecimalFormR strictDottedFormR) EndText) s = Some sm"
    by (simp add: strictRegexp_def StrictVersionRegex_def)
  from FindStringSubmatch_anchored [OF this] obtain i where "sm ! 0 = drop i s" by blast
  then show "suffix (sm ! 0) s" by (simp add: suffix_drop)
qed

section \<open>The original text of a reconstructed Version\<close>










section \<open>The disambiguation in Parse\<close>

lemma Parse_both:
  assumes l: "FindStringSubmatch laxRegexp s = Some lm"
    and t: "FindStringSubmatch strictRegexp s = Some sm"
  shows "Parse s =
     (if length (lm ! 0) > length (sm ! 0) then
        (case laxVersion lm of
           Inr v \<Rightarrow> Inr v
         | Inl (Panic p) \<Rightarrow> Inl (Panic p)
         | Inl (Error err) \<Rightarrow> strictVersion sm)
      else strictVersion sm)"
proof -
  from lax_match_shape(1) [OF l] obtain l0 lr where lm: "lm = l0 # lr" by (cases lm) auto
  from strict_match_shape(1) [OF t] obtain s0 sr where sm: "sm = s0 # sr" by (cases sm) auto
  show ?thesis
    unfolding Parse_def lax_stage_def Let_def l t
    by (simp add: lm sm split: sum.splits fault.splits)
qed

lemma Parse_lax_only:
  assumes "FindStringSubmatch laxRegexp s = Some lm"
    and "FindStringSubmatch strictRegexp s = None"
  shows "Parse s = laxVersion lm"
  unfolding Parse_def lax_stage_def Let_def assms by simp





lemma lax_match_1_0:
  "FindStringSubmatch laxRegexp ''1_0''
   = Some [''1_0'', [], [], [], [], [], [], [], [], ''1_0'', ''1'', [], ''_0'', [], []]"
  by code_simp

lemma strict_match_1_0:
  "FindStringSubmatch strictRegexp ''1_0'' = Some [''0'', ''0'', ''0'', [], [], [], []]"
  by code_simp

lemma laxVersion_1_0:
  "laxVersion [''1_0'', [], [], [], [], [], [], [], [], ''1_0'', ''1'', [], ''_0'', [], []]
   = Inl (Error ErrAlphaWithoutDecimal)"
  by code_simp

lemma strictVersion_0:
  "strictVersion [''0'', ''0'', ''0'', [], [], [], []]
   = Inr \<lparr>original = ''0'', alpha = False, qv = False, version = [0]\<rparr>"
  by code_simp

lemma laxDotted_A_fault:
  "laxDotted_toPerlVersionA d orig = Inl e \<Longrightarrow> is_panic e"
  by (auto simp: laxDotted_toPerlVersionA_def Let_def split: sum.splits if_splits
      dest: dottedToMinors_fault mustParseInt64_fault copy_tail_fault)

lemma laxDotted_B_fault:
  "laxDotted_toPerlVersionB d orig = Inl e \<Longrightarrow> is_panic e"
  by (auto simp: laxDotted_toPerlVersionB_def Let_def split: sum.splits list.splits if_splits
      dest: dottedToMinors_fault mustParseInt64_fault copy_tail_fault)

lemma laxDecimal_B_fault:
  "laxDecimal_toPerlVersionB d orig = Inl e \<Longrightarrow> is_panic e"
  by (auto simp: laxDecimal_toPerlVersionB_def Let_def split: sum.splits if_splits
      dest: getFractionValue_fault copy_tail_fault)

lemma laxDecimal_A_only_error:
  assumes "laxDecimal_toPerlVersionA d orig = Inl (Error err)"
  shows "err = ErrAlphaWithoutDecimal"
proof (cases "decimal_alpha d \<noteq> [] \<and> decimal_fraction d = []")
  case True
  from laxDecimal_A_error [OF True, of orig] assms show ?thesis by simp
next
  case False
  from laxDecimal_A_fault [OF False assms] show ?thesis by simp
qed

lemma laxVersion_only_error:
  assumes "laxVersion m = Inl (Error err)"
  shows "err = ErrAlphaWithoutDecimal"
proof -
  have np: "\<And>x. x = Inl (Error err) \<Longrightarrow> (\<And>e. x = Inl e \<Longrightarrow> is_panic e) \<Longrightarrow> False"
    by force
  from assms show ?thesis
    by (auto simp: laxVersion_def lax_toPerlVersion_def laxDotted_toPerlVersion_def
        laxDecimal_toPerlVersion_def
        split: if_splits
        dest: laxDecimal_A_only_error laxDotted_A_fault laxDotted_B_fault laxDecimal_B_fault)
qed

lemma lax_match_v1_2:
  "FindStringSubmatch laxRegexp ''v1.2''
   = Some [''v1.2'', [], ''v1.2'', ''1'', ''.2'', [], [], [], [], [], [], [], [], [], []]"
  by code_simp

lemma strict_match_v1_2:
  "FindStringSubmatch strictRegexp ''v1.2'' = Some [''1.2'', ''1.2'', ''1'', ''.2'', [], [], []]"
  by code_simp

lemma laxVersion_v1_2:
  "laxVersion [''v1.2'', [], ''v1.2'', ''1'', ''.2'', [], [], [], [], [], [], [], [], [], []]
   = Inr \<lparr>original = ''v1.2'', alpha = False, qv = True, version = [1, 2, 0]\<rparr>"
  by code_simp

lemma lax_match_v1_2_3:
  "FindStringSubmatch laxRegexp ''v1.2.3''
   = Some [''v1.2.3'', [], ''v1.2.3'', ''1'', ''.2.3'', [], [], [], [], [], [], [], [], [], []]"
  by code_simp

lemma strict_match_v1_2_3:
  "FindStringSubmatch strictRegexp ''v1.2.3''
   = Some [''v1.2.3'', [], [], [], ''v1.2.3'', ''1'', ''.2.3'']"
  by code_simp

lemma strictVersion_v1_2_3:
  "strictVersion [''v1.2.3'', [], [], [], ''v1.2.3'', ''1'', ''.2.3'']
   = Inr \<lparr>original = ''v1.2.3'', alpha = False, qv = True, version = [1, 2, 3]\<rparr>"
  by code_simp

lemma lax_match_1_dot:
  "FindStringSubmatch laxRegexp ''1.''
   = Some [''1.'', [], [], [], [], [], [], [], [], ''1.'', ''1'', [], [], [], []]"
  by code_simp

lemma strict_match_1_dot: "FindStringSubmatch strictRegexp ''1.'' = None"
  by code_simp

lemma laxVersion_1_dot:
  "laxVersion [''1.'', [], [], [], [], [], [], [], [], ''1.'', ''1'', [], [], [], []]
   = Inr \<lparr>original = ''1.'', alpha = False, qv = False, version = [1, 0]\<rparr>"
  by code_simp

text \<open>
  C1. Parse disambiguates the two grammars as follows. When both match and the lax
  match is strictly longer than the strict match, the lax reconstruction is attempted:
  its Version is the result if it returns one, and if it reports an error (which can
  only be the alpha-without-decimal error) the error is dropped and the result is the
  strict reconstruction. When both match and the lax match is not strictly longer,
  the result is the strict reconstruction. When only the lax grammar matches, the
  result is whatever the lax reconstruction returns, an error included: there is no
  fallback.
\<close>

theorem Parse_disambiguation:
  "(FindStringSubmatch laxRegexp s = Some lm \<and> FindStringSubmatch strictRegexp s = Some sm
      \<and> length (lm ! 0) > length (sm ! 0)
     \<longrightarrow> (\<forall>v. laxVersion lm = Inr v \<longrightarrow> Parse s = Inr v)
       \<and> (\<forall>err. laxVersion lm = Inl (Error err)
             \<longrightarrow> err = ErrAlphaWithoutDecimal \<and> Parse s = strictVersion sm))
   \<and> (FindStringSubmatch laxRegexp s = Some lm \<and> FindStringSubmatch strictRegexp s = Some sm
      \<and> \<not> length (lm ! 0) > length (sm ! 0)
     \<longrightarrow> Parse s = strictVersion sm)
   \<and> (FindStringSubmatch laxRegexp s = Some lm \<and> FindStringSubmatch strictRegexp s = None
     \<longrightarrow> Parse s = laxVersion lm)"
proof -
  have p1: "FindStringSubmatch laxRegexp s = Some lm \<and> FindStringSubmatch strictRegexp s = Some sm
      \<and> length (lm ! 0) > length (sm ! 0)
     \<longrightarrow> (\<forall>v. laxVersion lm = Inr v \<longrightarrow> Parse s = Inr v)
       \<and> (\<forall>err. laxVersion lm = Inl (Error err)
             \<longrightarrow> err = ErrAlphaWithoutDecimal \<and> Parse s = strictVersion sm)"
  proof (intro impI conjI allI)
    fix v
    assume h: "FindStringSubmatch laxRegexp s = Some lm \<and> FindStringSubmatch strictRegexp s = Some sm
      \<and> length (lm ! 0) > length (sm ! 0)" and r: "laxVersion lm = Inr v"
    from h have "Parse s = (case laxVersion lm of
           Inr v \<Rightarrow> Inr v
         | Inl (Panic p) \<Rightarrow> Inl (Panic p)
         | Inl (Error err) \<Rightarrow> strictVersion sm)"
      using Parse_both [of s lm sm] by simp
    with r show "Parse s = Inr v" by simp
  next
    fix err
    assume h: "FindStringSubmatch laxRegexp s = Some lm \<and> FindStringSubmatch strictRegexp s = Some sm
      \<and> length (lm ! 0) > length (sm ! 0)" and r: "laxVersion lm = Inl (Error err)"
    from r show "err = ErrAlphaWithoutDecimal" by (rule laxVersion_only_error)
    from h have "Parse s = (case laxVersion lm of
           Inr v \<Rightarrow> Inr v
         | Inl (Panic p) \<Rightarrow> Inl (Panic p)
         | Inl (Error err) \<Rightarrow> strictVersion sm)"
      using Parse_both [of s lm sm] by simp
    with r show "Parse s = strictVersion sm" by simp
  qed
  have p2: "FindStringSubmatch laxRegexp s = Some lm \<and> FindStringSubmatch strictRegexp s = Some sm
      \<and> \<not> length (lm ! 0) > length (sm ! 0)
     \<longrightarrow> Parse s = strictVersion sm"
    using Parse_both [of s lm sm] by simp
  have p3: "FindStringSubmatch laxRegexp s = Some lm \<and> FindStringSubmatch strictRegexp s = None
     \<longrightarrow> Parse s = laxVersion lm"
    using Parse_lax_only [of s lm] by simp
  from p1 p2 p3 show ?thesis by blast
qed

theorem Parse_disambiguation_witness:
  "Parse ''1_0'' = Inr \<lparr>original = ''0'', alpha = False, qv = False, version = [0]\<rparr>
   \<and> Parse ''v1.2'' = Inr \<lparr>original = ''v1.2'', alpha = False, qv = True, version = [1, 2, 0]\<rparr>
   \<and> Parse ''v1.2.3''
       = Inr \<lparr>original = ''v1.2.3'', alpha = False, qv = True, version = [1, 2, 3]\<rparr>
   \<and> Parse ''1.'' = Inr \<lparr>original = ''1.'', alpha = False, qv = False, version = [1, 0]\<rparr>"
proof -
  let ?l1 = "[''1_0'', [], [], [], [], [], [], [], [], ''1_0'', ''1'', [], ''_0'', [], []]"
  let ?s1 = "[''0'', ''0'', ''0'', [], [], [], []]"
  have g1: "length (?l1 ! 0) > length (?s1 ! 0)" by simp
  from Parse_disambiguation [of "''1_0''" ?l1 ?s1] lax_match_1_0 strict_match_1_0 g1
    laxVersion_1_0
  have "Parse ''1_0'' = strictVersion ?s1" by blast
  then have r1: "Parse ''1_0''
      = Inr \<lparr>original = ''0'', alpha = False, qv = False, version = [0]\<rparr>"
    by (simp only: strictVersion_0)
  let ?l2 = "[''v1.2'', [], ''v1.2'', ''1'', ''.2'', [], [], [], [], [], [], [], [], [], []]"
  let ?s2 = "[''1.2'', ''1.2'', ''1'', ''.2'', [], [], []]"
  have g2: "length (?l2 ! 0) > length (?s2 ! 0)" by simp
  from Parse_disambiguation [of "''v1.2''" ?l2 ?s2] lax_match_v1_2 strict_match_v1_2 g2
    laxVersion_v1_2
  have r2: "Parse ''v1.2''
      = Inr \<lparr>original = ''v1.2'', alpha = False, qv = True, version = [1, 2, 0]\<rparr>"
    by blast
  let ?l3 = "[''v1.2.3'', [], ''v1.2.3'', ''1'', ''.2.3'', [], [], [], [], [], [], [], [], [], []]"
  let ?s3 = "[''v1.2.3'', [], [], [], ''v1.2.3'', ''1'', ''.2.3'']"
  have g3: "\<not> length (?l3 ! 0) > length (?s3 ! 0)" by simp
  from Parse_disambiguation [of "''v1.2.3''" ?l3 ?s3] lax_match_v1_2_3 strict_match_v1_2_3 g3
  have "Parse ''v1.2.3'' = strictVersion ?s3" by blast
  then have r3: "Parse ''v1.2.3''
      = Inr \<lparr>original = ''v1.2.3'', alpha = False, qv = True, version = [1, 2, 3]\<rparr>"
    by (simp only: strictVersion_v1_2_3)
  let ?l4 = "[''1.'', [], [], [], [], [], [], [], [], ''1.'', ''1'', [], [], [], []]"
  from Parse_disambiguation [of "''1.''" ?l4] lax_match_1_dot strict_match_1_dot
  have "Parse ''1.'' = laxVersion ?l4" by blast
  then have r4: "Parse ''1.''
      = Inr \<lparr>original = ''1.'', alpha = False, qv = False, version = [1, 0]\<rparr>"
    by (simp only: laxVersion_1_dot)
  from r1 r2 r3 r4 show ?thesis by blast
qed

section \<open>Raw and the input text\<close>




section \<open>The input "1_0"\<close>

text \<open>
  C7. Parse("1_0") does not fail. The lax grammar matches the whole text and its
  reconstruction reports the alpha-without-decimal error; the strict grammar, not
  anchored at the start, matches the last character "0"; the lax match being the
  longer one, Parse drops the error and returns the strict reconstruction of "0".
\<close>

theorem Parse_1_0:
  "FindStringSubmatch laxRegexp ''1_0''
     = Some [''1_0'', [], [], [], [], [], [], [], [], ''1_0'', ''1'', [], ''_0'', [], []]
   \<and> laxVersion [''1_0'', [], [], [], [], [], [], [], [], ''1_0'', ''1'', [], ''_0'', [], []]
     = Inl (Error ErrAlphaWithoutDecimal)
   \<and> FindStringSubmatch strictRegexp ''1_0'' = Some [''0'', ''0'', ''0'', [], [], [], []]
   \<and> Parse ''1_0'' = Inr \<lparr>original = ''0'', alpha = False, qv = False, version = [0]\<rparr>"
proof -
  have "Parse ''1_0'' = Inr \<lparr>original = ''0'', alpha = False, qv = False, version = [0]\<rparr>"
    by code_simp
  with lax_match_1_0 laxVersion_1_0 strict_match_1_0 show ?thesis by blast
qed

section \<open>The record codec\<close>

lemmas ValidString_unfold = ValidString.simps
lemmas coerce_utf8_unfold = coerce_utf8.simps

declare ValidString.simps [simp del]
declare coerce_utf8.simps [simp del]

lemma ValidString_coerce: "ValidString s \<Longrightarrow> coerce_utf8 s = s"
proof (induction s rule: coerce_utf8.induct)
  case (1 s)
  show ?case
  proof (cases "s = []")
    case True
    then show ?thesis by (subst coerce_utf8_unfold) simp
  next
    case False
    from "1.prems" False have r: "rune_len s \<noteq> 0" and v: "ValidString (drop (rune_len s) s)"
      by (subst (asm) ValidString_unfold, simp split: if_splits)+
    from "1.IH"(2) [OF False r v] have "coerce_utf8 (drop (rune_len s) s) = drop (rune_len s) s" .
    with False r show ?thesis by (subst coerce_utf8_unfold) simp
  qed
qed

lemma decode_int64s_JNumber:
  "list_all is_int64 ns \<Longrightarrow> decode_int64s (map JNumber ns) = Some ns"
  by (induction ns) simp_all

lemma key_original: "map lower_ascii ''original'' = ''original''"
  by code_simp

lemma key_alpha: "map lower_ascii ''alpha'' = ''alpha''"
  by code_simp

lemma key_qv: "map lower_ascii ''qv'' = ''qv''"
  by code_simp

lemma key_version: "map lower_ascii ''version'' = ''version''"
  by code_simp

lemma decode_field_original:
  "decode_field d (''original'', JString s) = Some (d\<lparr>data_Original := s\<rparr>)"
  unfolding decode_field_def Let_def fst_conv snd_conv key_original by simp

lemma decode_field_alpha:
  "decode_field d (''alpha'', JBool b) = Some (d\<lparr>data_Alpha := b\<rparr>)"
  unfolding decode_field_def Let_def fst_conv snd_conv key_alpha by simp

lemma decode_field_qv:
  "decode_field d (''qv'', JBool b) = Some (d\<lparr>data_Qv := b\<rparr>)"
  unfolding decode_field_def Let_def fst_conv snd_conv key_qv by simp

lemma decode_field_version:
  "list_all is_int64 ns
   \<Longrightarrow> decode_field d (''version'', JArray (map JNumber ns)) = Some (d\<lparr>data_Version := ns\<rparr>)"
  unfolding decode_field_def Let_def fst_conv snd_conv key_version
  by (simp add: decode_int64s_JNumber)

lemma json_round_trip:
  assumes "list_all is_int64 (data_Version d)"
  shows "json_Unmarshal (json_Marshal d)
     = Inr \<lparr>data_Original = coerce_utf8 (data_Original d), data_Alpha = data_Alpha d,
            data_Qv = data_Qv d, data_Version = data_Version d\<rparr>"
  unfolding json_Unmarshal_def json_Marshal_def Let_def
  by (simp add: decode_field_original decode_field_alpha decode_field_qv
      decode_field_version [OF assms])

lemma decode_encode_value:
  assumes "list_all is_int64 (version v)"
  shows "decode_encode w v =
     Inr \<lparr>original = coerce_utf8 (original v), alpha = alpha v, qv = qv v,
          version = version v\<rparr>"
proof -
  let ?d = "\<lparr>data_Original = original v, data_Alpha = alpha v,
      data_Qv = qv v, data_Version = version v\<rparr>"
  have "list_all is_int64 (data_Version ?d)" using assms by simp
  from json_round_trip [OF this] show ?thesis
    by (simp add: decode_encode_def MarshalJSON_def UnmarshalJSON_def)
qed

text \<open>
  C8, as stated (for every Version, decoding the encoded record gives back the same
  Version), fails on a Version whose original text is not valid UTF-8:
  \<^verbatim>\<open>json.Marshal\<close> replaces the stray byte 0xFF by U+FFFD, and the decoded
  original is that replacement character.
\<close>

theorem codec_round_trip_counterexample:
  "decode_encode Undef \<lparr>original = [CHR 0xFF], alpha = False, qv = False, version = [0]\<rparr>
     = Inr \<lparr>original = [CHR 0xEF, CHR 0xBF, CHR 0xBD], alpha = False, qv = False,
            version = [0]\<rparr>
   \<and> \<lparr>original = [CHR 0xEF, CHR 0xBF, CHR 0xBD], alpha = False, qv = False, version = [0]\<rparr>
     \<noteq> \<lparr>original = [CHR 0xFF], alpha = False, qv = False, version = [0]\<rparr>"
proof -
  have "decode_encode Undef \<lparr>original = [CHR 0xFF], alpha = False, qv = False, version = [0]\<rparr>
     = Inr \<lparr>original = [CHR 0xEF, CHR 0xBF, CHR 0xBD], alpha = False, qv = False,
            version = [0]\<rparr>"
    by code_simp
  then show ?thesis by simp
qed

text \<open>
  C8, amended. For every Version whose original text is valid UTF-8 (its components
  being \<^verbatim>\<open>int64\<close> values), marshalling it and unmarshalling the result into any
  Version gives back a Version with the same original text, the same alpha flag, the
  same qv flag and the same components, whether or not Parse would accept the
  original text: the codec copies the fields and parses nothing.
\<close>

theorem codec_round_trip:
  assumes "ValidString (original v)" and "list_all is_int64 (version v)"
  shows "decode_encode w v = Inr v"
proof -
  from decode_encode_value [OF assms(2), of w] ValidString_coerce [OF assms(1)]
  show ?thesis by simp
qed

theorem codec_round_trip_witness:
  "decode_encode Undef
     \<lparr>original = ''not a version'', alpha = True, qv = True,
      version = [- 7, 9223372036854775807]\<rparr>
   = Inr \<lparr>original = ''not a version'', alpha = True, qv = True,
          version = [- 7, 9223372036854775807]\<rparr>
   \<and> Parse ''not a version'' = Inl (Error (ErrInvalidVersionString ''not a version''))"
proof -
  let ?v = "\<lparr>original = ''not a version'', alpha = True, qv = True,
      version = [- 7, 9223372036854775807]\<rparr>"
  have h1: "ValidString (original ?v)" by code_simp
  have h2: "list_all is_int64 (version ?v)" by code_simp
  have p: "Parse ''not a version'' = Inl (Error (ErrInvalidVersionString ''not a version''))"
    by code_simp
  from codec_round_trip [OF h1 h2, of Undef] p show ?thesis by blast
qed

section \<open>Stringify\<close>

text \<open>
  C9. Stringify returns "0" for every Version whose original text is the string
  "undef", whatever its alpha flag, qv flag and components (so also for a Version that
  the record codec produced and that differs from the distinguished undefined value),
  and returns the original text unchanged for every other Version. The test is on the
  original text.
\<close>

theorem Stringify_undef_text:
  "(original v = ''undef'' \<longrightarrow> Stringify v = ''0'')
   \<and> (original v \<noteq> ''undef'' \<longrightarrow> Stringify v = original v)
   \<and> Stringify \<lparr>original = ''undef'', alpha = a, qv = q, version = cs\<rparr> = ''0''
   \<and> decode_encode w \<lparr>original = ''undef'', alpha = True, qv = True, version = [1, 2, 3]\<rparr>
       = Inr \<lparr>original = ''undef'', alpha = True, qv = True, version = [1, 2, 3]\<rparr>
   \<and> \<lparr>original = ''undef'', alpha = True, qv = True, version = [1, 2, 3]\<rparr> \<noteq> Undef"
proof -
  let ?u = "\<lparr>original = ''undef'', alpha = True, qv = True, version = [1, 2, 3]\<rparr>"
  have p1: "original v = ''undef'' \<longrightarrow> Stringify v = ''0''"
    by (simp add: Stringify_def)
  have p2: "original v \<noteq> ''undef'' \<longrightarrow> Stringify v = original v"
    by (simp add: Stringify_def)
  have p3: "Stringify \<lparr>original = ''undef'', alpha = a, qv = q, version = cs\<rparr> = ''0''"
    by (simp add: Stringify_def)
  have h1: "ValidString (original ?u)" by code_simp
  have h2: "list_all is_int64 (version ?u)" by code_simp
  have "decode_encode w ?u
      = Inr \<lparr>original = coerce_utf8 (original ?u), alpha = alpha ?u, qv = qv ?u,
             version = version ?u\<rparr>"
    using h2 by (rule decode_encode_value)
  then have p4: "decode_encode w ?u = Inr ?u"
    using ValidString_coerce [OF h1] by simp
  have p5: "?u \<noteq> Undef" by (simp add: Undef_def)
  from p1 p2 p3 p4 p5 show ?thesis by blast
qed

theorem Stringify_undef_text_witness:
  "Stringify \<lparr>original = ''undef'', alpha = True, qv = True, version = [1, 2, 3]\<rparr> = ''0''
   \<and> Stringify \<lparr>original = ''1.02'', alpha = False, qv = False, version = [1, 20]\<rparr> = ''1.02''"
proof -
  let ?u = "\<lparr>original = ''undef'', alpha = True, qv = True, version = [1, 2, 3]\<rparr>"
  let ?n = "\<lparr>original = ''1.02'', alpha = False, qv = False, version = [1, 20]\<rparr>"
  have a: "original ?u = ''undef''" by simp
  have b: "original ?n \<noteq> ''undef''" by simp
  from Stringify_undef_text [of ?u] a have r1: "Stringify ?u = ''0''" by blast
  from Stringify_undef_text [of ?n] b have "Stringify ?n = original ?n" by blast
  then have r2: "Stringify ?n = ''1.02''" by simp
  from r1 r2 show ?thesis by blast
qed

end
